theory Spec2Isabelle
  imports Complex_Main
begin

section \<open>Floating-point numbers\<close>

text \<open>
  The power readings of \<^verbatim>\<open>simulation_main.py\<close> are Python floats, that is IEEE 754
  doubles. A finite double is a real number, and a reading is modelled as the real number
  it is; comparisons of doubles are then exact. Arithmetic is not: the result of an
  addition, multiplication or division is the exact result rounded to the nearest double,
  ties to the even significand, and a result too large for a double is an infinity. The
  type \<open>pyfloat\<close> holds what an operation can return. The two zeros of a double are not
  told apart, since no operation of the program does. Console output is not part of the
  model, but the computations made for it are, since they can raise.
\<close>

datatype pyfloat = Fin real | PInf | NInf | NaN

datatype error =
  AttributeError | TypeError | ZeroDivisionError | ValueError | OverflowError

text \<open>Rounding to the nearest integer, a tie to the even one.\<close>

definition rne :: "real \<Rightarrow> int" where
  "rne t =
     (let f = \<lfloor>t\<rfloor>; d = t - of_int f
      in if d < 1 / 2 then f
         else if 1 / 2 < d then f + 1
         else if even f then f else f + 1)"

text \<open>
  The binade of \<open>x \<noteq> 0\<close> is the \<open>e\<close> with \<open>2 ^ e \<le> \<bar>x\<bar> < 2 ^ (e + 1)\<close>. Doubles
  of that size are the multiples of \<open>2 ^ (e - 52)\<close> (53 significant bits), and never
  finer than \<open>2 ^ (- 1074)\<close>, the spacing of the subnormal numbers.
\<close>

definition binade :: "real \<Rightarrow> int" where
  "binade x = \<lfloor>log 2 \<bar>x\<bar>\<rfloor>"

definition quantum :: "real \<Rightarrow> int" where
  "quantum x = max (binade x - 52) (- 1074)"

definition round_double :: "real \<Rightarrow> real" where
  "round_double x =
     (if x = 0 then 0 else of_int (rne (x / 2 powi quantum x)) * 2 powi quantum x)"

text \<open>The double nearest to a real number; from \<open>2 ^ 1024\<close> on it is an infinity.\<close>

definition fl :: "real \<Rightarrow> pyfloat" where
  "fl x =
     (let r = round_double x
      in if 2 ^ 1024 \<le> r then PInf
         else if r \<le> - (2 ^ 1024) then NInf
         else Fin r)"

text \<open>The real numbers that are doubles: those that rounding leaves as they are.\<close>

definition is_double :: "real \<Rightarrow> bool" where
  "is_double x = (fl x = Fin x)"

text \<open>\<^verbatim>\<open>a + b\<close>, \<^verbatim>\<open>a * b\<close> and \<^verbatim>\<open>a / b\<close> for a float \<open>a\<close> and a finite
  float \<open>b\<close> (not zero, for the division: the callers test that).\<close>

fun fadd :: "pyfloat \<Rightarrow> real \<Rightarrow> pyfloat" where
  "fadd (Fin a) b = fl (a + b)"
| "fadd PInf b = PInf"
| "fadd NInf b = NInf"
| "fadd NaN b = NaN"

fun fmul :: "pyfloat \<Rightarrow> real \<Rightarrow> pyfloat" where
  "fmul (Fin a) b = fl (a * b)"
| "fmul PInf b = (if 0 < b then PInf else if b < 0 then NInf else NaN)"
| "fmul NInf b = (if 0 < b then NInf else if b < 0 then PInf else NaN)"
| "fmul NaN b = NaN"

fun fdiv :: "pyfloat \<Rightarrow> real \<Rightarrow> pyfloat" where
  "fdiv (Fin a) b = fl (a / b)"
| "fdiv PInf b = (if 0 < b then PInf else NInf)"
| "fdiv NInf b = (if 0 < b then NInf else PInf)"
| "fdiv NaN b = NaN"

text \<open>
  An int that meets a float in an operation is converted to a float first, rounded like
  everything else; \<^verbatim>\<open>OverflowError: int too large to convert to float\<close> when the
  result is not finite.
\<close>

definition int_to_float :: "int \<Rightarrow> error + real" where
  "int_to_float n = (case fl (of_int n) of Fin r \<Rightarrow> Inr r | _ \<Rightarrow> Inl OverflowError)"

text \<open>\<^verbatim>\<open>a / n\<close> for a float \<open>a\<close> and an int \<open>n\<close> that is not zero.\<close>

definition truediv_int :: "pyfloat \<Rightarrow> int \<Rightarrow> error + pyfloat" where
  "truediv_int a n = (case int_to_float n of Inl e \<Rightarrow> Inl e | Inr c \<Rightarrow> Inr (fdiv a c))"

text \<open>
  \<^verbatim>\<open>int(x)\<close> on a float truncates towards zero; it raises OverflowError on an
  infinity and ValueError on a NaN.
\<close>

fun py_int :: "pyfloat \<Rightarrow> error + int" where
  "py_int (Fin x) = Inr (if 0 \<le> x then \<lfloor>x\<rfloor> else \<lceil>x\<rceil>)"
| "py_int PInf = Inl OverflowError"
| "py_int NInf = Inl OverflowError"
| "py_int NaN = Inl ValueError"

text \<open>\<^verbatim>\<open>min(a, p)\<close> for a float \<open>a\<close> and a finite \<open>p\<close>: Python returns \<open>p\<close> when
  \<^verbatim>\<open>p < a\<close> and \<open>a\<close> otherwise.\<close>

fun fmin :: "pyfloat \<Rightarrow> real \<Rightarrow> pyfloat" where
  "fmin PInf p = Fin p"
| "fmin (Fin m) p = Fin (min m p)"
| "fmin NInf p = NInf"
| "fmin NaN p = NaN"

text \<open>\<^verbatim>\<open>a <= p\<close> for a float \<open>a\<close> and a finite \<open>p\<close>.\<close>

fun fle :: "pyfloat \<Rightarrow> real \<Rightarrow> bool" where
  "fle PInf p = False"
| "fle (Fin m) p = (m \<le> p)"
| "fle NInf p = True"
| "fle NaN p = False"

section \<open>LiveStats\<close>

record LiveStats =
  device_id :: string
  device_name :: string
  message_count :: int
  total_power :: pyfloat
  max_power :: real
  min_power :: pyfloat
  current_power :: real
  recent_powers :: "real list"

definition LiveStats_init :: "string \<Rightarrow> string \<Rightarrow> LiveStats" where
  "LiveStats_init did dname =
     \<lparr>device_id = did, device_name = dname, message_count = 0, total_power = Fin 0,
      max_power = 0, min_power = PInf, current_power = 0, recent_powers = []\<rparr>"

text \<open>
  \<^verbatim>\<open>deque(maxlen=20).append(x)\<close>: a full deque drops its oldest (leftmost)
  element when a new one is appended on the right; a deque of capacity 0 stays empty.
\<close>

definition deque_append :: "nat \<Rightarrow> 'a list \<Rightarrow> 'a \<Rightarrow> 'a list" where
  "deque_append maxlen xs x =
     (if maxlen = 0 then []
      else if length xs < maxlen then xs @ [x]
      else tl xs @ [x])"

text \<open>\<^verbatim>\<open>add_data(power)\<close> for a float reading.\<close>

definition add_data :: "LiveStats \<Rightarrow> real \<Rightarrow> LiveStats" where
  "add_data s pw =
     s\<lparr>message_count := message_count s + 1,
       total_power := fadd (total_power s) pw,
       max_power := max (max_power s) pw,
       min_power := fmin (min_power s) pw,
       current_power := pw,
       recent_powers := deque_append 20 (recent_powers s) pw\<rparr>"

text \<open>\<^verbatim>\<open>self.total_power / self.message_count if self.message_count > 0 else 0\<close>.\<close>

definition get_avg_power :: "LiveStats \<Rightarrow> error + pyfloat" where
  "get_avg_power s =
     (if message_count s > 0 then truediv_int (total_power s) (message_count s)
      else Inr (Fin 0))"

text \<open>
  The bar is a string of full and light blocks; the two characters are the constructors
  of \<open>cell\<close>. \<^verbatim>\<open>"x" * k\<close> is the empty string for \<open>k \<le> 0\<close>, which is
  what \<open>replicate (nat k)\<close> gives. Strings have no bound in the model: that memory runs
  out on a bar of astronomic length is not modelled.
\<close>

datatype cell = Filled | Blank

definition bar_of :: "int \<Rightarrow> int \<Rightarrow> cell list" where
  "bar_of filled width = replicate (nat filled) Filled @ replicate (nat (width - filled)) Blank"

text \<open>
  \<^verbatim>\<open>get_power_bar(width)\<close>. When \<^verbatim>\<open>max_power > 0\<close> the ratio is a float and
  \<^verbatim>\<open>normalized * width\<close> converts the width; otherwise \<^verbatim>\<open>normalized\<close> is the int
  0 and so is the product.
\<close>

definition get_power_bar :: "LiveStats \<Rightarrow> int \<Rightarrow> error + cell list" where
  "get_power_bar s width =
     (if max_power s = 0 then Inr (replicate (nat width) Blank)
      else if max_power s > 0 then
        (let normalized = fl (current_power s / max_power s)
         in case int_to_float width of
              Inl e \<Rightarrow> Inl e
            | Inr w \<Rightarrow>
                (case py_int (fmul normalized w) of
                   Inl e \<Rightarrow> Inl e
                 | Inr filled \<Rightarrow> Inr (bar_of filled width)))
      else Inr (bar_of 0 width))"

text \<open>The states of one aggregator: a fresh one, and any state after one more reading.\<close>

inductive reachable :: "LiveStats \<Rightarrow> bool" where
  fresh: "reachable (LiveStats_init did dname)"
| step: "reachable s \<Longrightarrow> reachable (add_data s p)"

text \<open>A fresh aggregator fed the readings \<open>ps\<close> in order.\<close>

definition feed :: "string \<Rightarrow> string \<Rightarrow> real list \<Rightarrow> LiveStats" where
  "feed did dname ps = foldl add_data (LiveStats_init did dname) ps"

text \<open>The running float sum \<^verbatim>\<open>((0.0 + p1) + p2) + ...\<close> of the readings.\<close>

definition float_sum :: "real list \<Rightarrow> pyfloat" where
  "float_sum ps = foldl fadd (Fin 0) ps"

text \<open>No addition of the running sum rounds: every partial sum, from \<open>acc\<close> on, is a
  double.\<close>

fun sums_exact :: "real \<Rightarrow> real list \<Rightarrow> bool" where
  "sums_exact acc [] = True"
| "sums_exact acc (p # ps) = (is_double (acc + p) \<and> sums_exact (acc + p) ps)"

section \<open>Payloads\<close>

text \<open>
  A payload is a Python value of the kind \<^verbatim>\<open>json.loads\<close> produces; the
  simulator builds its payloads as dicts with the keys \<^verbatim>\<open>device_id\<close>,
  \<^verbatim>\<open>timestamp\<close> and \<^verbatim>\<open>power\<close>. A number is a float (\<open>JNum\<close>, finite)
  or an int of any size (\<open>JInt\<close>).
\<close>

datatype json =
    JNull
  | JBool bool
  | JNum real
  | JInt int
  | JStr string
  | JList "json list"
  | JObj "(string \<times> json) list"

text \<open>\<^verbatim>\<open>payload.get(key, default)\<close> on a dict.\<close>

definition dict_get :: "(string \<times> json) list \<Rightarrow> string \<Rightarrow> json \<Rightarrow> json" where
  "dict_get kvs k dflt = (case map_of kvs k of None \<Rightarrow> dflt | Some v \<Rightarrow> v)"

text \<open>
  The values a float takes part in arithmetic with: floats, ints, and booleans
  (Python's \<^verbatim>\<open>True\<close> is the int 1). \<^verbatim>\<open>0.0 + x\<close> raises TypeError for
  everything else.
\<close>

datatype pynum = PyFloat real | PyInt int

fun num_of :: "json \<Rightarrow> pynum option" where
  "num_of (JNum r) = Some (PyFloat r)"
| "num_of (JInt i) = Some (PyInt i)"
| "num_of (JBool b) = Some (PyInt (if b then 1 else 0))"
| "num_of _ = None"

text \<open>The value of a number, for comparisons (Python compares an int and a float
  exactly), and its conversion to a float, for arithmetic.\<close>

fun num_real :: "pynum \<Rightarrow> real" where
  "num_real (PyFloat r) = r"
| "num_real (PyInt i) = of_int i"

fun to_float :: "pynum \<Rightarrow> error + real" where
  "to_float (PyFloat r) = Inr r"
| "to_float (PyInt i) = int_to_float i"

text \<open>
  A dict key: lists and dicts are unhashable (TypeError); \<^verbatim>\<open>True\<close>,
  \<^verbatim>\<open>1\<close> and \<^verbatim>\<open>1.0\<close> are the same key.
\<close>

fun py_key :: "json \<Rightarrow> json option" where
  "py_key (JList _) = None"
| "py_key (JObj _) = None"
| "py_key (JBool b) = Some (JInt (if b then 1 else 0))"
| "py_key (JNum r) = Some (if of_int \<lfloor>r\<rfloor> = r then JInt \<lfloor>r\<rfloor> else JNum r)"
| "py_key v = Some v"

section \<open>ApplicationLayer\<close>

record dev_stats =
  ds_message_count :: int
  ds_total_power :: pyfloat
  ds_max_power :: real
  ds_min_power :: pyfloat

record received =
  r_device_id :: json
  r_timestamp :: json
  r_power :: json
  r_topic :: string

record ApplicationLayer =
  received_messages :: "received list"
  processed_count :: int
  device_stats :: "json \<rightharpoonup> dev_stats"
  topic_filter :: string
  subscribed :: bool

definition ApplicationLayer_init :: "string \<Rightarrow> ApplicationLayer" where
  "ApplicationLayer_init tf =
     \<lparr>received_messages = [], processed_count = 0, device_stats = Map.empty,
      topic_filter = tf, subscribed = False\<rparr>"

definition new_dev_stats :: dev_stats where
  "new_dev_stats =
     \<lparr>ds_message_count = 0, ds_total_power = Fin 0, ds_max_power = 0, ds_min_power = PInf\<rparr>"

text \<open>The exception, if any, of \<^verbatim>\<open>stats["total_power"] / stats["message_count"]\<close>:
  the count is converted first, then tested for zero.\<close>

definition avg_error :: "int \<Rightarrow> error option" where
  "avg_error n =
     (case int_to_float n of
        Inl e \<Rightarrow> Some e
      | Inr c \<Rightarrow> if c = 0 then Some ZeroDivisionError else None)"

text \<open>
  The \<^verbatim>\<open>try\<close> block of \<^verbatim>\<open>process_json_message\<close>: the state it leaves and
  the exception it raised, if any. The statements run in the order of the source, so an
  exception keeps the mutations made before it: a payload whose power is not a number,
  or is an int too large for a float, has already had its device's entry created and
  \<^verbatim>\<open>message_count\<close> incremented when \<^verbatim>\<open>stats["total_power"] += power\<close>
  raises. The report printed for every hundredth message computes the average.
\<close>

definition process_try :: "ApplicationLayer \<Rightarrow> string \<Rightarrow> json \<Rightarrow> bool \<Rightarrow> ApplicationLayer \<times> error option" where
  "process_try a topic payload verbose =
     (case payload of
        JObj kvs \<Rightarrow>
          let did = dict_get kvs ''device_id'' (JStr ''unknown'');
              timestamp = dict_get kvs ''timestamp'' (JStr []);
              pw = dict_get kvs ''power'' (JNum 0)
          in (case py_key did of
                None \<Rightarrow> (a, Some TypeError)
              | Some k \<Rightarrow>
                  let stats = (case device_stats a k of None \<Rightarrow> new_dev_stats | Some d \<Rightarrow> d);
                      stats1 = stats\<lparr>ds_message_count := ds_message_count stats + 1\<rparr>;
                      a1 = a\<lparr>device_stats := (device_stats a)(k \<mapsto> stats1)\<rparr>
                  in (case num_of pw of
                        None \<Rightarrow> (a1, Some TypeError)
                      | Some v \<Rightarrow>
                          (case to_float v of
                             Inl e \<Rightarrow> (a1, Some e)
                           | Inr x \<Rightarrow>
                               let stats2 = stats1\<lparr>ds_total_power := fadd (ds_total_power stats1) x,
                                                   ds_max_power := max (ds_max_power stats1) (num_real v),
                                                   ds_min_power := fmin (ds_min_power stats1) (num_real v)\<rparr>;
                                   a2 = a1\<lparr>device_stats := (device_stats a)(k \<mapsto> stats2),
                                          received_messages := received_messages a @
                                            [\<lparr>r_device_id = did, r_timestamp = timestamp,
                                              r_power = pw, r_topic = topic\<rparr>],
                                          processed_count := processed_count a + 1\<rparr>
                               in (a2, if verbose \<and> processed_count a2 mod 100 = 0
                                       then avg_error (ds_message_count stats2) else None))))
      | _ \<Rightarrow> (a, Some AttributeError))"

text \<open>\<^verbatim>\<open>process_json_message\<close> catches every exception of its body and returns.\<close>

definition process_json_message :: "ApplicationLayer \<Rightarrow> string \<Rightarrow> json \<Rightarrow> bool \<Rightarrow> ApplicationLayer" where
  "process_json_message a topic payload verbose = fst (process_try a topic payload verbose)"

text \<open>An application layer after a sequence of calls (topic, payload, verbose).\<close>

definition app_run :: "string \<Rightarrow> (string \<times> json \<times> bool) list \<Rightarrow> ApplicationLayer" where
  "app_run tf calls =
     foldl (\<lambda>a (topic, payload, verbose). process_json_message a topic payload verbose)
       (ApplicationLayer_init tf) calls"

section \<open>MQTTClient\<close>

text \<open>
  The paho client object is outside the repository. Of it the model keeps a log of the
  calls of \<^verbatim>\<open>client.publish\<close> that returned (topic, payload, qos, retain; the wire
  text is \<^verbatim>\<open>json.dumps(payload)\<close>), and takes what one such call does as a
  parameter: it returns a result code, or it raises.
\<close>

datatype paho_result = Rc int | Raises

definition MQTT_ERR_SUCCESS :: int where
  "MQTT_ERR_SUCCESS = 0"

record MQTTClient =
  broker_host :: string
  broker_port :: int
  connected :: bool
  outbox :: "(string \<times> json \<times> int \<times> bool) list"

definition MQTTClient_init :: "string \<Rightarrow> int \<Rightarrow> MQTTClient" where
  "MQTTClient_init host port =
     \<lparr>broker_host = host, broker_port = port, connected = False, outbox = []\<rparr>"

definition publish :: "(string \<Rightarrow> json \<Rightarrow> paho_result) \<Rightarrow> MQTTClient \<Rightarrow> string \<Rightarrow> json \<Rightarrow> int \<Rightarrow> bool
    \<Rightarrow> bool \<times> MQTTClient" where
  "publish net c topic payload qos retain =
     (if \<not> connected c then (False, c)
      else (case net topic payload of
              Raises \<Rightarrow> (False, c)
            | Rc r \<Rightarrow> (r = MQTT_ERR_SUCCESS,
                       c\<lparr>outbox := outbox c @ [(topic, payload, qos, retain)]\<rparr>)))"

definition on_connect :: "MQTTClient \<Rightarrow> int \<Rightarrow> MQTTClient" where
  "on_connect c rc = (if rc = 0 then c\<lparr>connected := True\<rparr> else c\<lparr>connected := False\<rparr>)"

text \<open>
  \<^verbatim>\<open>connect\<close> starts the network thread and then polls the flag that the thread's
  \<^verbatim>\<open>_on_connect\<close> callback writes. The environment of one call is made explicit:
  whether a paho call raises; the successive values of \<^verbatim>\<open>time.time()\<close>
  (\<open>clock 0\<close> is \<^verbatim>\<open>start_time\<close>, \<open>clock (k + 1)\<close> the reading in the
  \<open>k\<close>-th test of the loop condition); and the result code, if any, with which the
  network thread has called \<^verbatim>\<open>_on_connect\<close> before that test.
\<close>

record conn_env =
  lib_raises :: bool
  clock :: "nat \<Rightarrow> real"
  acks :: "nat \<Rightarrow> int option"

definition deliver :: "int option \<Rightarrow> MQTTClient \<Rightarrow> MQTTClient" where
  "deliver ev c = (case ev of None \<Rightarrow> c | Some rc \<Rightarrow> on_connect c rc)"

text \<open>
  \<^verbatim>\<open>while not self.connected and (time.time() - start_time) < timeout: time.sleep(0.1)\<close>
  with \<^verbatim>\<open>timeout = 5\<close>. Nothing in the code bounds the number of iterations, so
  the loop is a partial function: \<open>None\<close> is a loop that never ends.
\<close>

partial_function (option) wait_connected :: "conn_env \<Rightarrow> nat \<Rightarrow> MQTTClient \<Rightarrow> MQTTClient option" where
  "wait_connected env k c =
     (let c' = deliver (acks env k) c
      in if \<not> connected c' \<and> clock env (Suc k) - clock env 0 < 5
         then wait_connected env (Suc k) c'
         else Some c')"

text \<open>
  \<^verbatim>\<open>connect\<close>: any exception of the paho calls is caught and gives
  \<^verbatim>\<open>False\<close>; after the loop the flag decides the result.
\<close>

definition connect :: "conn_env \<Rightarrow> MQTTClient \<Rightarrow> (bool \<times> MQTTClient) option" where
  "connect env c =
     (if lib_raises env then Some (False, c)
      else (case wait_connected env 0 c of
              None \<Rightarrow> None
            | Some c' \<Rightarrow> Some (connected c', c')))"

section \<open>Device simulation\<close>

text \<open>\<^verbatim>\<open>mqtt_client and mqtt_client.connected\<close>, as a truth value.\<close>

definition using_mqtt :: "MQTTClient option \<Rightarrow> bool" where
  "using_mqtt m = (case m of None \<Rightarrow> False | Some c \<Rightarrow> connected c)"

text \<open>
  What the displays compute before they print, and so the exceptions they can raise:
  \<^verbatim>\<open>print_dashboard\<close> takes the average and a bar of width 50, the power
  information of the two publish functions the average and a bar of the default width 30.
\<close>

definition print_dashboard :: "LiveStats \<Rightarrow> ApplicationLayer \<Rightarrow> error option" where
  "print_dashboard stats processor =
     (case get_avg_power stats of
        Inl e \<Rightarrow> Some e
      | Inr avg \<Rightarrow> (case get_power_bar stats 50 of Inl e \<Rightarrow> Some e | Inr bar \<Rightarrow> None))"

definition power_info :: "LiveStats \<Rightarrow> error option" where
  "power_info stats =
     (case get_avg_power stats of
        Inl e \<Rightarrow> Some e
      | Inr avg \<Rightarrow> (case get_power_bar stats 30 of Inl e \<Rightarrow> Some e | Inr bar \<Rightarrow> None))"

text \<open>
  \<^verbatim>\<open>fake_mqtt_publish\<close>: \<^verbatim>\<open>stats.add_data(payload.get("power", 0.0))\<close>, then
  the power information when \<^verbatim>\<open>verbose or show_json\<close>. An int power is taken at
  its float value.
\<close>

definition fake_mqtt_publish :: "string \<Rightarrow> json \<Rightarrow> LiveStats \<Rightarrow> bool \<Rightarrow> bool \<Rightarrow> error + LiveStats" where
  "fake_mqtt_publish topic payload stats verbose show_json =
     (case payload of
        JObj kvs \<Rightarrow>
          (case num_of (dict_get kvs ''power'' (JNum 0)) of
             None \<Rightarrow> Inl TypeError
           | Some v \<Rightarrow>
               (case to_float v of
                  Inl e \<Rightarrow> Inl e
                | Inr x \<Rightarrow>
                    let stats' = add_data stats x
                    in if verbose \<or> show_json
                       then (case power_info stats' of Some e \<Rightarrow> Inl e | None \<Rightarrow> Inr stats')
                       else Inr stats'))
      | _ \<Rightarrow> Inl AttributeError)"

text \<open>\<^verbatim>\<open>real_mqtt_publish\<close>: the same, with the message published in between.\<close>

definition real_mqtt_publish :: "(string \<Rightarrow> json \<Rightarrow> paho_result) \<Rightarrow> MQTTClient \<Rightarrow> string \<Rightarrow> json \<Rightarrow> LiveStats
    \<Rightarrow> bool \<Rightarrow> bool \<Rightarrow> error + (LiveStats \<times> MQTTClient)" where
  "real_mqtt_publish net c topic payload stats verbose show_json =
     (case payload of
        JObj kvs \<Rightarrow>
          (case num_of (dict_get kvs ''power'' (JNum 0)) of
             None \<Rightarrow> Inl TypeError
           | Some v \<Rightarrow>
               (case to_float v of
                  Inl e \<Rightarrow> Inl e
                | Inr x \<Rightarrow>
                    let stats' = add_data stats x;
                        c' = snd (publish net c topic payload 0 False)
                    in if verbose \<or> show_json
                       then (case power_info stats' of Some e \<Rightarrow> Inl e | None \<Rightarrow> Inr (stats', c'))
                       else Inr (stats', c')))
      | _ \<Rightarrow> Inl AttributeError)"

text \<open>
  \<^verbatim>\<open>subscribe_to_mqtt\<close>: without a connected client it returns
  \<^verbatim>\<open>False\<close>; otherwise it subscribes, unless the paho call raises.
\<close>

definition subscribe_to_mqtt :: "bool \<Rightarrow> ApplicationLayer \<Rightarrow> MQTTClient option \<Rightarrow> bool \<times> ApplicationLayer" where
  "subscribe_to_mqtt sub_raises a m =
     (if \<not> using_mqtt m then (False, a)
      else if sub_raises then (False, a)
      else (True, a\<lparr>subscribed := True\<rparr>))"

text \<open>
  \<^verbatim>\<open>time.sleep(d)\<close> raises ValueError for a NaN or a negative length and
  OverflowError for a length that does not fit the platform's timestamp. The largest
  length the platform accepts is a parameter, \<open>max_sleep\<close>.
\<close>

definition sleep_error :: "real \<Rightarrow> pyfloat \<Rightarrow> error option" where
  "sleep_error max_sleep d =
     (case d of
        NaN \<Rightarrow> Some ValueError
      | PInf \<Rightarrow> Some OverflowError
      | NInf \<Rightarrow> Some OverflowError
      | Fin x \<Rightarrow>
          if max_sleep < \<bar>x\<bar> then Some OverflowError
          else if x < 0 then Some ValueError
          else None)"

text \<open>
  The state of \<^verbatim>\<open>simulate_device\<close>: its locals \<^verbatim>\<open>stats\<close> and
  \<^verbatim>\<open>processor\<close>, and the client it was given (\<open>None\<close> for no client).
\<close>

record sim_state =
  stats :: LiveStats
  processor :: ApplicationLayer
  mqtt_client :: "MQTTClient option"

text \<open>
  Iteration \<open>i\<close> (from 0) of the simulation loop, for a row (ISO timestamp, power). The
  dashboard is shown first, on every iteration when there are at most 1000 records and on
  every hundredth and the last otherwise. The reading is then published, really or in
  simulation; without a connected client it is handed to the application layer directly;
  the progress line, on every hundredth iteration and the last, takes the average; last
  comes \<^verbatim>\<open>time.sleep(1.0 / publish_rate)\<close>.
\<close>

definition simulate_step :: "(string \<Rightarrow> json \<Rightarrow> paho_result) \<Rightarrow> real \<Rightarrow> string \<Rightarrow> string \<Rightarrow> real
    \<Rightarrow> int \<Rightarrow> int \<Rightarrow> sim_state \<Rightarrow> string \<times> real \<Rightarrow> error + sim_state" where
  "simulate_step net max_sleep did topic_prefix publish_rate total_records i st row =
     (let payload = JObj [(''device_id'', JStr did), (''timestamp'', JStr (fst row)),
                          (''power'', JNum (snd row))];
          topic = topic_prefix @ ''/'' @ did @ ''/power'';
          dashboard_update_interval = (if total_records > 1000 then 100 else 1);
          shown =
            (if (i + 1) mod dashboard_update_interval = 0 \<or> i + 1 = total_records
             then print_dashboard (stats st) (processor st) else None);
          show_json = (message_count (stats st) = 1 \<or> message_count (stats st) mod 1000 = 0
                        \<or> i + 1 = total_records);
          show_summary = (message_count (stats st) mod 100 = 0);
          published =
            (case mqtt_client st of
               Some c \<Rightarrow>
                 if connected c
                 then (case real_mqtt_publish net c topic payload (stats st) show_summary show_json of
                         Inl e \<Rightarrow> Inl e
                       | Inr (s', c') \<Rightarrow> Inr (st\<lparr>stats := s', mqtt_client := Some c'\<rparr>))
                 else (case fake_mqtt_publish topic payload (stats st) show_summary show_json of
                         Inl e \<Rightarrow> Inl e
                       | Inr s' \<Rightarrow> Inr (st\<lparr>stats := s'\<rparr>))
             | None \<Rightarrow>
                 (case fake_mqtt_publish topic payload (stats st) show_summary show_json of
                    Inl e \<Rightarrow> Inl e
                  | Inr s' \<Rightarrow> Inr (st\<lparr>stats := s'\<rparr>)))
      in case shown of
           Some e \<Rightarrow> Inl e
         | None \<Rightarrow>
             (case published of
                Inl e \<Rightarrow> Inl e
              | Inr st1 \<Rightarrow>
                  let st2 =
                        (if \<not> using_mqtt (mqtt_client st1)
                         then st1\<lparr>processor :=
                                process_json_message (processor st1) topic payload
                                  (show_summary \<or> message_count (stats st1) mod 1000 = 0)\<rparr>
                         else st1)
                  in case (if (i + 1) mod 100 = 0 \<or> i + 1 = total_records
                           then get_avg_power (stats st2) else Inr (Fin 0)) of
                       Inl e \<Rightarrow> Inl e
                     | Inr avg \<Rightarrow>
                         if publish_rate = 0 then Inl ZeroDivisionError
                         else (case sleep_error max_sleep (fl (1 / publish_rate)) of
                                 Some e \<Rightarrow> Inl e
                               | None \<Rightarrow> Inr st2)))"

fun simulate_loop :: "(string \<Rightarrow> json \<Rightarrow> paho_result) \<Rightarrow> real \<Rightarrow> string \<Rightarrow> string \<Rightarrow> real
    \<Rightarrow> int \<Rightarrow> int \<Rightarrow> (string \<times> real) list \<Rightarrow> sim_state \<Rightarrow> error + sim_state" where
  "simulate_loop net max_sleep did topic_prefix publish_rate total_records i [] st = Inr st"
| "simulate_loop net max_sleep did topic_prefix publish_rate total_records i (row # rows) st =
     (case simulate_step net max_sleep did topic_prefix publish_rate total_records i st row of
        Inl e \<Rightarrow> Inl e
      | Inr st' \<Rightarrow>
          simulate_loop net max_sleep did topic_prefix publish_rate total_records (i + 1) rows st')"

text \<open>
  \<^verbatim>\<open>simulate_device\<close> from the point where the rows to replay
  (\<^verbatim>\<open>sample_df\<close>, with the default index 0, 1, ...) are loaded: the aggregator and the
  application layer are created, the layer subscribes when there is a connected client,
  the estimated time \<^verbatim>\<open>total_records / publish_rate\<close> is computed, the loop runs and
  the dashboard is shown a last time. An exception makes the source return
  \<^verbatim>\<open>None\<close>; the model returns which one it was. On success the source returns the
  processor; the model returns the aggregator with it. The closing report divides by the
  elapsed wall-clock time, which is not modelled, and neither is a keyboard interrupt.
\<close>

definition simulate_device :: "(string \<Rightarrow> json \<Rightarrow> paho_result) \<Rightarrow> real \<Rightarrow> bool \<Rightarrow> string \<Rightarrow> string \<Rightarrow> string
    \<Rightarrow> real \<Rightarrow> MQTTClient option \<Rightarrow> (string \<times> real) list \<Rightarrow> error + sim_state" where
  "simulate_device net max_sleep sub_raises dname did topic_prefix publish_rate m rows =
     (let stats0 = LiveStats_init did dname;
          processor0 = ApplicationLayer_init (topic_prefix @ ''/+/power'');
          processor1 = (if using_mqtt m then snd (subscribe_to_mqtt sub_raises processor0 m)
                        else processor0);
          total_records = int (length rows)
      in case int_to_float total_records of
           Inl e \<Rightarrow> Inl e
         | Inr t \<Rightarrow>
             if publish_rate = 0 then Inl ZeroDivisionError
             else (case simulate_loop net max_sleep did topic_prefix publish_rate total_records 0 rows
                          \<lparr>stats = stats0, processor = processor1, mqtt_client = m\<rparr> of
                     Inl e \<Rightarrow> Inl e
                   | Inr st \<Rightarrow>
                       (case print_dashboard (stats st) (processor st) of
                          Some e \<Rightarrow> Inl e
                        | None \<Rightarrow> Inr st)))"

text \<open>The number of filled cells of a bar.\<close>

definition filled_cells :: "cell list \<Rightarrow> nat" where
  "filled_cells bar = length (filter (\<lambda>c. c = Filled) bar)"

text \<open>The payload that \<^verbatim>\<open>simulate_device\<close> builds for a row.\<close>

definition reading :: "string \<Rightarrow> string \<Rightarrow> real \<Rightarrow> json" where
  "reading did ts p = JObj [(''device_id'', JStr did), (''timestamp'', JStr ts), (''power'', JNum p)]"

text \<open>The message count recorded for a device, 0 for a device without an entry.\<close>

definition dev_count :: "ApplicationLayer \<Rightarrow> json \<Rightarrow> int" where
  "dev_count a k = (case device_stats a k of None \<Rightarrow> 0 | Some d \<Rightarrow> ds_message_count d)"

text \<open>Two environments for concrete runs: a library that accepts every message, and a
  broker that never answers while each test of the wait loop reads a clock one second
  further.\<close>

definition broker_ok :: "string \<Rightarrow> json \<Rightarrow> paho_result" where
  "broker_ok topic payload = Rc MQTT_ERR_SUCCESS"

definition silent_env :: conn_env where
  "silent_env = \<lparr>lib_raises = False, clock = real, acks = (\<lambda>k. None)\<rparr>"

text \<open>
  An aggregator whose displays can be shown: the average and the bars of width 30 and 50
  are computed without an exception. A replay can be displayed when that holds of the
  state before the first reading and after each one.
\<close>

definition displayable :: "LiveStats \<Rightarrow> bool" where
  "displayable s =
     (\<not> isl (get_avg_power s) \<and> \<not> isl (get_power_bar s 30) \<and> \<not> isl (get_power_bar s 50))"


section \<open>The wire encoding\<close>

text \<open>
  The program hands the payload to \<^verbatim>\<open>json.dumps\<close> and reads it back with
  \<^verbatim>\<open>json.loads\<close>; both belong to Python's standard library, not to the repository.
  The encoding is therefore modelled from section 6 of the specification: a structured
  object with exactly the three fields \<^verbatim>\<open>device_id\<close> (string), \<^verbatim>\<open>timestamp\<close>
  (string) and \<^verbatim>\<open>power\<close> (number), serialized as text. The text is JSON in the layout
  of \<^verbatim>\<open>json.dumps\<close>. A character is a byte of the string.
\<close>

record Reading =
  rd_device_id :: string
  rd_timestamp :: string
  rd_power :: real

definition dq :: char where
  "dq = CHR 0x22"

definition bs :: char where
  "bs = CHR 0x5C"

definition hex_digit :: "nat \<Rightarrow> char" where
  "hex_digit n = (if n < 10 then char_of (48 + n) else char_of (87 + n))"

definition unhex :: "char \<Rightarrow> nat option" where
  "unhex c =
     (let k = (of_char c :: nat)
      in if 48 \<le> k \<and> k \<le> 57 then Some (k - 48)
         else if 97 \<le> k \<and> k \<le> 102 then Some (k - 87)
         else None)"

text \<open>
  Modelled from the spec: the text of a string field. The quote and the backslash are
  escaped with a backslash, printable ASCII stands for itself, every other character is
  written \<^verbatim>\<open>\u00XX\<close> with its code in hexadecimal.
\<close>

definition plain :: "char \<Rightarrow> bool" where
  "plain c = (32 \<le> (of_char c :: nat) \<and> (of_char c :: nat) < 127 \<and> c \<noteq> dq \<and> c \<noteq> bs)"

definition escape_char :: "char \<Rightarrow> string" where
  "escape_char c =
     (if c = dq \<or> c = bs then [bs, c]
      else if plain c then [c]
      else [bs, CHR ''u'', CHR ''0'', CHR ''0'',
            hex_digit ((of_char c :: nat) div 16), hex_digit ((of_char c :: nat) mod 16)])"

definition encode_string :: "string \<Rightarrow> string" where
  "encode_string s = dq # concat (map escape_char s) @ [dq]"

text \<open>
  Modelled from the spec: reading a string field back. The text after the opening quote
  is read up to the closing quote; the result is the string and the text that follows.
\<close>

fun unescape :: "string \<Rightarrow> (string \<times> string) option" where
  "unescape [] = None"
| "unescape (c # cs) =
     (if c = dq then Some ([], cs)
      else if c = bs then
        (case cs of
           [] \<Rightarrow> None
         | e # cs1 \<Rightarrow>
             if e = dq \<or> e = bs
             then (case unescape cs1 of None \<Rightarrow> None | Some (s, rest) \<Rightarrow> Some (e # s, rest))
             else if e = CHR ''u''
             then (case cs1 of
                     z1 # z2 # h # l # cs2 \<Rightarrow>
                       if z1 = CHR ''0'' \<and> z2 = CHR ''0''
                       then (case unhex h of
                               None \<Rightarrow> None
                             | Some a \<Rightarrow>
                                 (case unhex l of
                                    None \<Rightarrow> None
                                  | Some b \<Rightarrow>
                                      (case unescape cs2 of
                                         None \<Rightarrow> None
                                       | Some (s, rest) \<Rightarrow> Some (char_of (16 * a + b) # s, rest))))
                       else None
                   | _ \<Rightarrow> None)
             else None)
      else (case unescape cs of None \<Rightarrow> None | Some (s, rest) \<Rightarrow> Some (c # s, rest)))"

text \<open>Decimal digits: the \<open>k\<close> low digits of a number, the value of a digit string, and
  the number of digits of a number.\<close>

definition digit_char :: "nat \<Rightarrow> char" where
  "digit_char n = char_of (48 + n)"

definition is_digit :: "char \<Rightarrow> bool" where
  "is_digit c = (48 \<le> (of_char c :: nat) \<and> (of_char c :: nat) \<le> 57)"

definition digit_val :: "char \<Rightarrow> nat" where
  "digit_val c = of_char c - 48"

fun digits :: "nat \<Rightarrow> nat \<Rightarrow> string" where
  "digits 0 n = []"
| "digits (Suc k) n = digits k (n div 10) @ [digit_char (n mod 10)]"

definition digits_val :: "string \<Rightarrow> nat" where
  "digits_val s = foldl (\<lambda>a c. 10 * a + digit_val c) 0 s"

fun ndigits :: "nat \<Rightarrow> nat" where
  "ndigits n = (if n < 10 then 1 else Suc (ndigits (n div 10)))"

declare ndigits.simps [simp del]

definition decimal :: "nat \<Rightarrow> string" where
  "decimal n = digits (ndigits n) n"

text \<open>
  Modelled from the spec: the text of the number field. A double is an integer multiple
  \<open>M * 2 ^ q\<close> of its quantum, so it has a finite decimal expansion: all of it is
  written, integer part, point and fraction. (\<^verbatim>\<open>json.dumps\<close> writes the shortest
  numeral that reads back as the same double; the specification fixes no numeral.)
\<close>

definition encode_number :: "real \<Rightarrow> string" where
  "encode_number p =
     (if p = 0 then ''0.0''
      else
        let q = quantum p;
            M = nat \<bar>rne (p / 2 powi q)\<bar>;
            k = nat (- q);
            N = M * 2 ^ nat q * 5 ^ k
        in (if p < 0 then ''-'' else [])
           @ decimal (N div 10 ^ k) @ ''.''
           @ (if k = 0 then ''0'' else digits k (N mod 10 ^ k)))"

text \<open>
  Modelled from the spec: reading the number field back. The numeral denotes a real
  number, and the float read is the double nearest to it; a numeral beyond the range of
  the doubles is refused here (a reading holds a finite power).
\<close>

definition decode_number :: "string \<Rightarrow> real option" where
  "decode_number s =
     (let neg = (s \<noteq> [] \<and> hd s = CHR ''-'');
          body = (if neg then tl s else s);
          ip = takeWhile is_digit body;
          rest = dropWhile is_digit body
      in case rest of
           [] \<Rightarrow> None
         | c # fp \<Rightarrow>
             if c = CHR ''.'' \<and> ip \<noteq> [] \<and> fp \<noteq> [] \<and> list_all is_digit fp
             then (let v = real (digits_val ip) + real (digits_val fp) / 10 ^ length fp
                   in case fl (if neg then - v else v) of Fin x \<Rightarrow> Some x | _ \<Rightarrow> None)
             else None)"

text \<open>
  Modelled from the spec: the message encoding of a reading, an object with the three
  fields in the order \<^verbatim>\<open>device_id\<close>, \<^verbatim>\<open>timestamp\<close>, \<^verbatim>\<open>power\<close>.
\<close>

definition encode :: "Reading \<Rightarrow> string" where
  "encode r =
     ''{'' @ encode_string ''device_id'' @ '': '' @ encode_string (rd_device_id r)
     @ '', '' @ encode_string ''timestamp'' @ '': '' @ encode_string (rd_timestamp r)
     @ '', '' @ encode_string ''power'' @ '': '' @ encode_number (rd_power r) @ ''}''"

fun strip_prefix :: "string \<Rightarrow> string \<Rightarrow> string option" where
  "strip_prefix [] s = Some s"
| "strip_prefix (p # ps) [] = None"
| "strip_prefix (p # ps) (c # cs) = (if p = c then strip_prefix ps cs else None)"

text \<open>
  Modelled from the spec: decoding a message. The text must have the layout that
  \<open>encode\<close> writes; anything else is a decoding failure, \<open>None\<close>.
\<close>

definition decode :: "string \<Rightarrow> Reading option" where
  "decode txt =
     (case strip_prefix (''{'' @ encode_string ''device_id'' @ '': '' @ [dq]) txt of
        None \<Rightarrow> None
      | Some t1 \<Rightarrow>
          (case unescape t1 of
             None \<Rightarrow> None
           | Some (d, t2) \<Rightarrow>
               (case strip_prefix ('', '' @ encode_string ''timestamp'' @ '': '' @ [dq]) t2 of
                  None \<Rightarrow> None
                | Some t3 \<Rightarrow>
                    (case unescape t3 of
                       None \<Rightarrow> None
                     | Some (ts, t4) \<Rightarrow>
                         (case strip_prefix ('', '' @ encode_string ''power'' @ '': '') t4 of
                            None \<Rightarrow> None
                          | Some t5 \<Rightarrow>
                              if t5 \<noteq> [] \<and> last t5 = CHR ''}''
                              then (case decode_number (butlast t5) of
                                      None \<Rightarrow> None
                                    | Some p \<Rightarrow>
                                        Some \<lparr>rd_device_id = d, rd_timestamp = ts, rd_power = p\<rparr>)
                              else None)))))"

section \<open>Properties of rounding\<close>

subsection \<open>Rounding to an integer\<close>

lemma rne_of_int: "rne (of_int k) = k"
  by (simp add: rne_def)

lemma rne_bounds: "\<lfloor>t\<rfloor> \<le> rne t \<and> rne t \<le> \<lfloor>t\<rfloor> + 1"
  by (simp add: rne_def Let_def)

lemma rne_mono:
  assumes "s \<le> t"
  shows "rne s \<le> rne t"
proof (cases "\<lfloor>s\<rfloor> = \<lfloor>t\<rfloor>")
  case True
  have "s - of_int \<lfloor>s\<rfloor> \<le> t - of_int \<lfloor>t\<rfloor>" using assms True by simp
  then show ?thesis using True by (auto simp: rne_def Let_def)
next
  case False
  have "\<lfloor>s\<rfloor> \<le> \<lfloor>t\<rfloor>" using assms by (rule floor_mono)
  with False have "\<lfloor>s\<rfloor> + 1 \<le> \<lfloor>t\<rfloor>" by simp
  moreover have "rne s \<le> \<lfloor>s\<rfloor> + 1" "\<lfloor>t\<rfloor> \<le> rne t" using rne_bounds by blast+
  ultimately show ?thesis by linarith
qed

lemma rne_le: "t \<le> of_int k \<Longrightarrow> rne t \<le> k"
  using rne_mono [of t "of_int k"] by (simp add: rne_of_int)

lemma rne_ge: "of_int k \<le> t \<Longrightarrow> k \<le> rne t"
  using rne_mono [of "of_int k" t] by (simp add: rne_of_int)

lemma rne_minus: "rne (- t) = - rne t"
proof (cases "t = of_int \<lfloor>t\<rfloor>")
  case True
  then obtain k where "t = of_int k" ..
  then have "- t = of_int (- k)" by simp
  then show ?thesis using \<open>t = of_int k\<close> by (simp only: rne_of_int)
next
  case False
  have "\<lceil>t\<rceil> = \<lfloor>t\<rfloor> + 1" using False by (simp add: ceiling_altdef)
  then have fl: "\<lfloor>- t\<rfloor> = - \<lfloor>t\<rfloor> - 1" by (simp add: ceiling_def)
  have d: "- t - of_int \<lfloor>- t\<rfloor> = 1 - (t - of_int \<lfloor>t\<rfloor>)" by (simp add: fl)
  define f where "f = \<lfloor>t\<rfloor>"
  define e where "e = t - of_int f"
  have "rne (- t) = (if 1 - e < 1 / 2 then - f - 1 else if 1 / 2 < 1 - e then - f - 1 + 1
      else if even (- f - 1) then - f - 1 else - f - 1 + 1)"
    unfolding rne_def Let_def d unfolding fl f_def e_def by simp
  moreover have "rne t = (if e < 1 / 2 then f else if 1 / 2 < e then f + 1
      else if even f then f else f + 1)"
    unfolding rne_def Let_def f_def e_def by simp
  ultimately show ?thesis by auto
qed

subsection \<open>Binades\<close>

lemma binade_bounds:
  assumes "x \<noteq> 0"
  shows "2 powi binade x \<le> \<bar>x\<bar>" and "\<bar>x\<bar> < 2 powi (binade x + 1)"
proof -
  have pos: "0 < \<bar>x\<bar>" using assms by simp
  have "\<lfloor>log 2 \<bar>x\<bar>\<rfloor> = binade x" by (simp add: binade_def)
  then have "2 powr (real_of_int (binade x)) \<le> \<bar>x\<bar> \<and> \<bar>x\<bar> < 2 powr (real_of_int (binade x) + 1)"
    using floor_log_eq_powr_iff [OF pos, of 2 "binade x"] by simp
  moreover have "2 powr (real_of_int (binade x)) = (2::real) powi binade x"
    by (simp add: powr_real_of_int')
  moreover have "2 powr (real_of_int (binade x) + 1) = (2::real) powi (binade x + 1)"
    using powr_real_of_int' [of 2 "binade x + 1"] by simp
  ultimately show "2 powi binade x \<le> \<bar>x\<bar>" and "\<bar>x\<bar> < 2 powi (binade x + 1)" by simp_all
qed

lemma binade_eqI:
  assumes "2 powi e \<le> \<bar>x\<bar>" and "\<bar>x\<bar> < 2 powi (e + 1)"
  shows "binade x = e"
proof -
  have pos: "0 < \<bar>x\<bar>"
    using assms(1) zero_less_power_int [of "2::real" e] by linarith
  have "2 powr (real_of_int e) = (2::real) powi e"
    by (simp add: powr_real_of_int')
  moreover have "2 powr (real_of_int e + 1) = (2::real) powi (e + 1)"
    using powr_real_of_int' [of 2 "e + 1"] by simp
  ultimately have "\<lfloor>log 2 \<bar>x\<bar>\<rfloor> = e"
    using floor_log_eq_powr_iff [OF pos, of 2 e] assms by simp
  then show ?thesis by (simp add: binade_def)
qed

lemma binade_less:
  assumes "x \<noteq> 0" and "\<bar>x\<bar> < 2 powi k"
  shows "binade x < k"
proof (rule ccontr)
  assume "\<not> binade x < k"
  then have "k \<le> binade x" by simp
  then have "(2::real) powi k \<le> 2 powi binade x" by (intro power_int_increasing) simp_all
  with binade_bounds(1) [OF assms(1)] assms(2) show False by linarith
qed

lemma binade_mono:
  assumes "x \<noteq> 0" and "\<bar>x\<bar> \<le> \<bar>y\<bar>"
  shows "binade x \<le> binade y"
proof -
  have y: "y \<noteq> 0" using assms by auto
  have "\<bar>x\<bar> < 2 powi (binade y + 1)" using binade_bounds(2) [OF y] assms(2) by linarith
  from binade_less [OF assms(1) this] show ?thesis by simp
qed

lemma quantum_mono: "x \<noteq> 0 \<Longrightarrow> \<bar>x\<bar> \<le> \<bar>y\<bar> \<Longrightarrow> quantum x \<le> quantum y"
  using binade_mono [of x y] by (simp add: quantum_def)

lemma multiple_int:
  assumes "q \<le> e"
  shows "of_int m * 2 powi e / 2 powi q = real_of_int (m * 2 ^ nat (e - q))"
proof -
  have "(2::real) powi e / 2 powi q = 2 powi (e - q)" by (simp add: power_int_diff)
  also have "\<dots> = 2 ^ nat (e - q)" using assms by (simp add: power_int_def)
  finally have "(2::real) powi e / 2 powi q = 2 ^ nat (e - q)" .
  moreover have "of_int m * 2 powi e / 2 powi q = real_of_int m * ((2::real) powi e / 2 powi q)"
    by simp
  ultimately show ?thesis by simp
qed

subsection \<open>Doubles\<close>

text \<open>A number \<open>m * 2 ^ e\<close> with \<open>\<bar>m\<bar> < 2 ^ 53\<close> and \<open>- 1074 \<le> e \<le> 971\<close> is a double:
  rounding returns it.\<close>

lemma round_double_dyadic:
  assumes x: "x = of_int m * 2 powi e" and m: "\<bar>m\<bar> < 2 ^ 53" and e: "- 1074 \<le> e"
  shows "round_double x = x"
proof (cases "x = 0")
  case True
  then show ?thesis by (simp add: round_double_def)
next
  case False
  have "\<bar>x\<bar> = of_int \<bar>m\<bar> * 2 powi e" by (simp add: x abs_mult)
  also have "\<dots> < 2 ^ 53 * 2 powi e"
  proof -
    have "real_of_int \<bar>m\<bar> < 2 ^ 53" using m by (metis of_int_less_numeral_power_cancel_iff)
    then show ?thesis by (intro mult_strict_right_mono) simp_all
  qed
  also have "\<dots> = 2 powi (53 + e)" by (simp add: power_int_add)
  finally have "binade x < 53 + e" by (rule binade_less [OF False])
  then have q: "quantum x \<le> e" using e by (simp add: quantum_def)
  have "x / 2 powi quantum x = real_of_int (m * 2 ^ nat (e - quantum x))"
    using multiple_int [OF q, of m] by (simp add: x [symmetric])
  then have "rne (x / 2 powi quantum x) = m * 2 ^ nat (e - quantum x)"
    by (simp only: rne_of_int)
  then have "round_double x = real_of_int (m * 2 ^ nat (e - quantum x)) * 2 powi quantum x"
    using False by (simp add: round_double_def)
  also have "\<dots> = x / 2 powi quantum x * 2 powi quantum x"
    using \<open>x / 2 powi quantum x = real_of_int (m * 2 ^ nat (e - quantum x))\<close> by simp
  also have "\<dots> = x" by simp
  finally show ?thesis .
qed

lemma fl_dyadic:
  assumes x: "x = of_int m * 2 powi e" and m: "\<bar>m\<bar> < 2 ^ 53" and e: "- 1074 \<le> e" "e \<le> 971"
  shows "fl x = Fin x"
proof -
  have r: "round_double x = x" using x m e(1) by (rule round_double_dyadic)
  have "\<bar>x\<bar> = of_int \<bar>m\<bar> * 2 powi e" by (simp add: x abs_mult)
  also have "\<dots> < 2 ^ 53 * 2 powi e"
  proof -
    have "real_of_int \<bar>m\<bar> < 2 ^ 53" using m by (metis of_int_less_numeral_power_cancel_iff)
    then show ?thesis by (intro mult_strict_right_mono) simp_all
  qed
  also have "\<dots> \<le> 2 ^ 53 * 2 powi 971"
    using e(2) by (intro mult_left_mono power_int_increasing) simp_all
  also have "\<dots> = 2 ^ 1024" by simp
  finally have "\<bar>x\<bar> < 2 ^ 1024" .
  then show ?thesis by (simp add: fl_def r Let_def abs_less_iff)
qed

lemma fl_Fin_iff: "fl x = Fin r \<longleftrightarrow> r = round_double x \<and> \<bar>round_double x\<bar> < 2 ^ 1024"
  by (auto simp: fl_def Let_def abs_less_iff)

lemma is_double_iff: "is_double x \<longleftrightarrow> round_double x = x \<and> \<bar>x\<bar> < 2 ^ 1024"
  by (auto simp: is_double_def fl_Fin_iff)

lemma is_double_dyadic:
  "x = of_int m * 2 powi e \<Longrightarrow> \<bar>m\<bar> < 2 ^ 53 \<Longrightarrow> - 1074 \<le> e \<Longrightarrow> e \<le> 971 \<Longrightarrow> is_double x"
  unfolding is_double_def by (rule fl_dyadic)

lemma is_double_of_int: "\<bar>n\<bar> < 2 ^ 53 \<Longrightarrow> is_double (of_int n)"
  by (rule is_double_dyadic [where m = n and e = 0]) simp_all

lemma is_double_int_val: "x = of_int n \<Longrightarrow> \<bar>n\<bar> < 2 ^ 53 \<Longrightarrow> is_double x"
  using is_double_of_int [of n] by simp

lemma is_double_one: "is_double 1"
  by (rule is_double_int_val [where n = 1]) simp_all

lemma is_double_pow63: "is_double (2 ^ 63)"
  by (rule is_double_dyadic [where m = 1 and e = 63]) simp_all

lemma fl_of_int: "\<bar>n\<bar> < 2 ^ 53 \<Longrightarrow> fl (of_int n) = Fin (of_int n)"
  using is_double_of_int [of n] by (simp add: is_double_def)

lemma fl_int_val: "x = of_int n \<Longrightarrow> \<bar>n\<bar> < 2 ^ 53 \<Longrightarrow> fl x = Fin x"
  using fl_of_int [of n] by simp

lemma fl_zero: "fl 0 = Fin 0"
  by (simp add: fl_def round_double_def)

text \<open>Rounding never crosses a double: a number between 0 and a double \<open>b\<close> rounds to a
  double between 0 and \<open>b\<close>.\<close>

lemma round_double_nonneg:
  assumes "0 \<le> x"
  shows "0 \<le> round_double x"
proof (cases "x = 0")
  case True
  then show ?thesis by (simp add: round_double_def)
next
  case False
  have "real_of_int 0 \<le> x / 2 powi quantum x" using assms by simp
  then have "0 \<le> rne (x / 2 powi quantum x)" by (rule rne_ge)
  then show ?thesis using False by (simp add: round_double_def)
qed

lemma round_double_le:
  assumes x: "0 < x" and xb: "x \<le> b" and b: "is_double b"
  shows "round_double x \<le> b"
proof -
  have b0: "b \<noteq> 0" and x0: "x \<noteq> 0" using x xb by auto
  define M where "M = rne (b / 2 powi quantum b)"
  have bM: "b = of_int M * 2 powi quantum b"
    using b b0 by (simp add: is_double_iff round_double_def M_def)
  have q: "quantum x \<le> quantum b"
    using x xb by (intro quantum_mono) auto
  have "b / 2 powi quantum x = real_of_int (M * 2 ^ nat (quantum b - quantum x))"
    using multiple_int [OF q, of M] bM by simp
  moreover have "x / 2 powi quantum x \<le> b / 2 powi quantum x"
    using xb by (intro divide_right_mono) simp_all
  ultimately have "rne (x / 2 powi quantum x) \<le> M * 2 ^ nat (quantum b - quantum x)"
    by (intro rne_le) simp
  then have "real_of_int (rne (x / 2 powi quantum x)) \<le> real_of_int (M * 2 ^ nat (quantum b - quantum x))"
    by (simp only: of_int_le_iff)
  then have "real_of_int (rne (x / 2 powi quantum x)) * 2 powi quantum x
      \<le> real_of_int (M * 2 ^ nat (quantum b - quantum x)) * 2 powi quantum x"
    by (intro mult_right_mono) simp_all
  also have "\<dots> = b / 2 powi quantum x * 2 powi quantum x"
    using \<open>b / 2 powi quantum x = real_of_int (M * 2 ^ nat (quantum b - quantum x))\<close> by simp
  also have "\<dots> = b" by simp
  finally show ?thesis using x0 by (simp add: round_double_def)
qed

lemma fl_enclosed:
  assumes "0 \<le> x" and "x \<le> b" and "is_double b"
  shows "\<exists>r. fl x = Fin r \<and> 0 \<le> r \<and> r \<le> b"
proof -
  have lo: "0 \<le> round_double x" using assms(1) by (rule round_double_nonneg)
  have hi: "round_double x \<le> b"
  proof (cases "x = 0")
    case True
    then show ?thesis using assms by (simp add: round_double_def)
  next
    case False
    with assms(1) have "0 < x" by simp
    then show ?thesis using assms(2,3) by (rule round_double_le)
  qed
  have "\<bar>b\<bar> < 2 ^ 1024" using assms(3) by (simp add: is_double_iff)
  with lo hi have "\<bar>round_double x\<bar> < 2 ^ 1024" by linarith
  with lo hi show ?thesis by (simp add: fl_Fin_iff)
qed

text \<open>Computing a rounding by hand: the binade is given, the rest is arithmetic.\<close>

lemma fl_eval:
  assumes "2 powi e \<le> \<bar>x\<bar>" and "\<bar>x\<bar> < 2 powi (e + 1)"
    and "rne (x / 2 powi max (e - 52) (- 1074)) = m"
    and "r = of_int m * 2 powi max (e - 52) (- 1074)"
    and "\<bar>r\<bar> < 2 ^ 1024"
  shows "fl x = Fin r"
proof -
  have b: "binade x = e" using assms(1,2) by (rule binade_eqI)
  have "0 < (2::real) powi e" by simp
  with assms(1) have "0 < \<bar>x\<bar>" by linarith
  then have x0: "x \<noteq> 0" by simp
  have "round_double x = r" using x0 assms(3,4) by (simp add: round_double_def quantum_def b)
  with assms(5) show ?thesis by (simp add: fl_Fin_iff)
qed

lemma fl_overflow:
  assumes "2 ^ 1024 \<le> x"
  shows "fl x = PInf"
proof -
  have x0: "x \<noteq> 0" and xpos: "0 < x" using assms by (smt (verit) zero_less_power)+
  have e: "1024 \<le> binade x"
  proof (rule ccontr)
    assume "\<not> 1024 \<le> binade x"
    then have "binade x + 1 \<le> 1024" by simp
    then have "(2::real) powi (binade x + 1) \<le> 2 powi 1024"
      by (intro power_int_increasing) simp_all
    with binade_bounds(2) [OF x0] assms xpos show False by simp
  qed
  then have q: "quantum x = binade x - 52" by (simp add: quantum_def)
  have "(2::real) powi binade x / 2 powi quantum x = 2 powi 52"
    by (simp add: q power_int_diff)
  then have "real_of_int (2 ^ 52) = 2 powi binade x / 2 powi quantum x" by simp
  also have "\<dots> \<le> x / 2 powi quantum x"
    using binade_bounds(1) [OF x0] xpos by (intro divide_right_mono) simp_all
  finally have "2 ^ 52 \<le> rne (x / 2 powi quantum x)" by (rule rne_ge)
  then have "real_of_int (2 ^ 52) \<le> real_of_int (rne (x / 2 powi quantum x))"
    by (simp only: of_int_le_iff)
  then have "real_of_int (2 ^ 52) * 2 powi quantum x \<le> round_double x"
    using x0 by (simp add: round_double_def)
  moreover have "real_of_int (2 ^ 52) * 2 powi quantum x = 2 powi binade x"
    by (simp add: q power_int_diff)
  moreover have "(2::real) powi 1024 \<le> 2 powi binade x"
    using e by (intro power_int_increasing) simp_all
  ultimately have "2 ^ 1024 \<le> round_double x" by simp
  then show ?thesis by (simp add: fl_def Let_def)
qed

lemma round_double_minus: "round_double (- x) = - round_double x"
proof -
  have "quantum (- x) = quantum x" by (simp add: quantum_def binade_def)
  then show ?thesis by (simp add: round_double_def rne_minus)
qed

lemma fl_overflow_neg:
  assumes "x \<le> - (2 ^ 1024)"
  shows "fl x = NInf"
proof -
  have "fl (- x) = PInf" using assms by (intro fl_overflow) simp
  then have "2 ^ 1024 \<le> round_double (- x)"
    by (simp add: fl_def Let_def split: if_splits)
  then have "round_double x \<le> - (2 ^ 1024)" by (simp add: round_double_minus)
  then show ?thesis by (simp add: fl_def Let_def)
qed

lemma int_to_float_small: "\<bar>n\<bar> < 2 ^ 53 \<Longrightarrow> int_to_float n = Inr (of_int n)"
  by (simp add: int_to_float_def fl_of_int)

lemma int_to_float_count:
  assumes "0 \<le> n" and "n \<le> 2 ^ 63"
  shows "\<exists>c. int_to_float n = Inr c"
proof -
  have "real_of_int n \<le> 2 ^ 63" using assms(2) by (metis of_int_le_numeral_power_cancel_iff)
  from fl_enclosed [OF _ this is_double_pow63] assms(1)
  obtain r where "fl (real_of_int n) = Fin r" by auto
  then show ?thesis by (simp add: int_to_float_def)
qed

lemma int_to_float_huge: "int_to_float (2 ^ 1024) = Inl OverflowError"
proof -
  have "fl (real_of_int (2 ^ 1024)) = PInf" by (rule fl_overflow) simp
  then show ?thesis by (simp only: int_to_float_def pyfloat.case)
qed

text \<open>The doubles nearest to 0.1 and 0.2 add up, in Python, to 0.30000000000000004: the
  exact sum lies half-way between two doubles and goes to the even one.\<close>

lemma float_sum_rounds:
  "float_sum [3602879701896397 / 2 ^ 55, 3602879701896397 / 2 ^ 54]
     = Fin (5404319552844596 / 2 ^ 54)"
proof -
  have a: "fl (3602879701896397 / 2 ^ 55) = Fin (3602879701896397 / 2 ^ 55)"
    by (rule fl_dyadic [where m = 3602879701896397 and e = "- 55"]) simp_all
  have b: "fl (3602879701896397 / 2 ^ 55 + 3602879701896397 / 2 ^ 54)
      = Fin (5404319552844596 / 2 ^ 54)"
    by (rule fl_eval [where e = "- 2" and m = 5404319552844596]) (simp_all add: rne_def)
  show ?thesis using a b by (simp add: float_sum_def)
qed

section \<open>Properties of LiveStats\<close>

subsection \<open>Feeding a list of readings\<close>

lemma feed_Nil: "feed did dname [] = LiveStats_init did dname"
  by (simp add: feed_def)

lemma feed_snoc: "feed did dname (ps @ [p]) = add_data (feed did dname ps) p"
  by (simp add: feed_def)

lemma message_count_feed: "message_count (feed did dname ps) = int (length ps)"
  by (induction ps rule: rev_induct)
    (simp_all add: feed_Nil feed_snoc LiveStats_init_def add_data_def)

lemma total_power_feed: "total_power (feed did dname ps) = float_sum ps"
  by (induction ps rule: rev_induct)
    (simp_all add: feed_Nil feed_snoc LiveStats_init_def add_data_def float_sum_def)

text \<open>The running maximum starts at 0, so it is the largest of 0 and the readings.\<close>

lemma max_power_feed:
  "max_power (feed did dname ps) = (if ps = [] then 0 else max 0 (Max (set ps)))"
proof (induction ps rule: rev_induct)
  case Nil
  show ?case by (simp add: feed_Nil LiveStats_init_def)
next
  case (snoc p ps)
  show ?case
  proof (cases "ps = []")
    case True
    then show ?thesis by (simp add: feed_def add_data_def LiveStats_init_def)
  next
    case False
    then have "Max (set (ps @ [p])) = max p (Max (set ps))" by simp
    with False snoc show ?thesis
      by (simp add: feed_snoc add_data_def max.commute max.left_commute)
  qed
qed

text \<open>The running minimum starts at infinity, so the first reading always sets it.\<close>

lemma min_power_feed:
  "min_power (feed did dname ps) = (if ps = [] then PInf else Fin (Min (set ps)))"
proof (induction ps rule: rev_induct)
  case Nil
  show ?case by (simp add: feed_Nil LiveStats_init_def)
next
  case (snoc p ps)
  show ?case
  proof (cases "ps = []")
    case True
    then show ?thesis by (simp add: feed_def add_data_def LiveStats_init_def)
  next
    case False
    then have "Min (set (ps @ [p])) = min p (Min (set ps))" by simp
    with False snoc show ?thesis by (simp add: feed_snoc add_data_def min.commute)
  qed
qed

lemma foldl_fadd_exact:
  "sums_exact a ps \<Longrightarrow> foldl fadd (Fin a) ps = Fin (a + sum_list ps)"
proof (induction ps arbitrary: a)
  case Nil
  show ?case by simp
next
  case (Cons p ps)
  then have "fl (a + p) = Fin (a + p)" and "sums_exact (a + p) ps"
    by (simp_all add: is_double_def)
  with Cons.IH [of "a + p"] show ?case by (simp add: add.assoc)
qed

lemma truediv_int_exact:
  assumes "is_double (of_int n)" and "is_double (a / of_int n)"
  shows "truediv_int (Fin a) n = Inr (Fin (a / of_int n))"
  using assms by (simp add: truediv_int_def int_to_float_def is_double_def)

text \<open>
  Claim C1, as amended. After \<open>n \<ge> 1\<close> calls \<^verbatim>\<open>add_data(p1..pn)\<close> on a fresh
  aggregator, with readings of any sign, \<^verbatim>\<open>max_power\<close> is the largest of 0 and
  the readings (so it is the largest reading as soon as one reading is not negative),
  \<^verbatim>\<open>min_power\<close> is the smallest reading and \<^verbatim>\<open>message_count\<close> is \<open>n\<close>.
  \<^verbatim>\<open>get_avg_power()\<close> is the float quotient by \<open>n\<close> of the running float sum
  \<^verbatim>\<open>((0.0 + p1) + p2) + ... + pn\<close>, each operation rounded to the nearest double; it
  is the sum of the readings divided by \<open>n\<close> when no operation rounds, that is when
  every partial sum, \<open>n\<close> and the quotient are doubles.
\<close>

theorem add_data_running_stats:
  assumes "ps \<noteq> []"
  shows "max_power (feed did dname ps) = max 0 (Max (set ps))
       \<and> min_power (feed did dname ps) = Fin (Min (set ps))
       \<and> message_count (feed did dname ps) = int (length ps)
       \<and> get_avg_power (feed did dname ps) = truediv_int (float_sum ps) (int (length ps))
       \<and> (sums_exact 0 ps \<and> is_double (real (length ps))
            \<and> is_double (sum_list ps / real (length ps)) \<longrightarrow>
          get_avg_power (feed did dname ps) = Inr (Fin (sum_list ps / real (length ps))))"
proof -
  have pos: "0 < int (length ps)" using assms by simp
  then have avg: "get_avg_power (feed did dname ps) = truediv_int (float_sum ps) (int (length ps))"
    by (simp add: get_avg_power_def message_count_feed total_power_feed)
  have "truediv_int (float_sum ps) (int (length ps)) = Inr (Fin (sum_list ps / real (length ps)))"
    if "sums_exact 0 ps" "is_double (real (length ps))" "is_double (sum_list ps / real (length ps))"
  proof -
    have "float_sum ps = Fin (sum_list ps)"
      using foldl_fadd_exact [OF that(1)] by (simp add: float_sum_def)
    then show ?thesis
      using truediv_int_exact [of "int (length ps)" "sum_list ps"] that(2,3) by simp
  qed
  with avg assms show ?thesis
    by (simp add: max_power_feed min_power_feed message_count_feed)
qed

theorem add_data_running_stats_witness:
  "max_power (feed ''fridge_207'' ''Fridge'' [100, 150, 50]) = 150
 \<and> min_power (feed ''fridge_207'' ''Fridge'' [100, 150, 50]) = Fin 50
 \<and> message_count (feed ''fridge_207'' ''Fridge'' [100, 150, 50]) = 3
 \<and> get_avg_power (feed ''fridge_207'' ''Fridge'' [100, 150, 50]) = Inr (Fin 100)"
proof -
  have d: "is_double 100" "is_double 250" "is_double 300" "is_double 3"
    by (rule is_double_int_val [where n = 100], simp, simp)
       (rule is_double_int_val [where n = 250], simp, simp,
        rule is_double_int_val [where n = 300], simp, simp,
        rule is_double_int_val [where n = 3], simp, simp)
  show ?thesis
    using add_data_running_stats [of "[100, 150, 50]" "''fridge_207''" "''Fridge''"] d
    by auto
qed

text \<open>
  Claim C1 as stated fails for a reading below zero: after the single call
  \<^verbatim>\<open>add_data(-5.0)\<close> the maximum is still its initial 0, not \<open>-5\<close>.
\<close>

theorem max_power_negative_counterexample:
  "max_power (feed ''fridge_207'' ''Fridge'' [- 5]) = 0
 \<and> max_power (feed ''fridge_207'' ''Fridge'' [- 5]) \<noteq> Max (set [- 5])"
  by (simp add: feed_def add_data_def LiveStats_init_def)

lemma reachable_min: "reachable s \<Longrightarrow> min_power s \<noteq> NaN \<and> min_power s \<noteq> NInf"
proof (induction rule: reachable.induct)
  case (fresh did dname)
  show ?case by (simp add: LiveStats_init_def)
next
  case (step s p)
  then show ?case by (cases "min_power s") (simp_all add: add_data_def)
qed

text \<open>
  Claim C3. In every state reached from a fresh aggregator by calls of
  \<^verbatim>\<open>add_data\<close> with arbitrary readings, once \<^verbatim>\<open>message_count\<close> is at
  least 1, \<^verbatim>\<open>min_power \<le> current_power \<le> max_power\<close>.
\<close>

theorem add_data_invariant:
  assumes "reachable s" and "1 \<le> message_count s"
  shows "fle (min_power s) (current_power s) \<and> current_power s \<le> max_power s"
  using assms
proof (induction rule: reachable.induct)
  case (fresh did dname)
  then show ?case by (simp add: LiveStats_init_def)
next
  case (step s p)
  from reachable_min [OF step.hyps] show ?case
    by (cases "min_power s") (simp_all add: add_data_def)
qed

theorem add_data_invariant_witness:
  "fle (min_power (add_data (add_data (LiveStats_init ''vacuum_254'' ''Vacuum'') 10) (- 20)))
        (current_power (add_data (add_data (LiveStats_init ''vacuum_254'' ''Vacuum'') 10) (- 20)))
 \<and> current_power (add_data (add_data (LiveStats_init ''vacuum_254'' ''Vacuum'') 10) (- 20))
      \<le> max_power (add_data (add_data (LiveStats_init ''vacuum_254'' ''Vacuum'') 10) (- 20))"
proof -
  have r: "reachable (add_data (add_data (LiveStats_init ''vacuum_254'' ''Vacuum'') 10) (- 20))"
    by (intro reachable.step reachable.fresh)
  have m: "1 \<le> message_count (add_data (add_data (LiveStats_init ''vacuum_254'' ''Vacuum'') 10) (- 20))"
    by (simp add: add_data_def LiveStats_init_def)
  from add_data_invariant [OF r m] show ?thesis .
qed

subsection \<open>The window of recent readings\<close>

lemma recent_powers_feed:
  "recent_powers (feed did dname ps) = drop (length ps - 20) ps"
proof (induction ps rule: rev_induct)
  case Nil
  show ?case by (simp add: feed_Nil LiveStats_init_def)
next
  case (snoc p ps)
  show ?case
  proof (cases "length ps < 20")
    case True
    with snoc show ?thesis by (simp add: feed_snoc add_data_def deque_append_def)
  next
    case False
    have "tl (drop (length ps - 20) ps) = drop (Suc (length ps - 20)) ps"
      by (simp add: drop_Suc tl_drop)
    moreover have "Suc (length ps - 20) = length (ps @ [p]) - 20" using False by simp
    moreover have "Suc (length ps - 20) \<le> length ps" using False by simp
    ultimately show ?thesis using snoc False
      by (simp add: feed_snoc add_data_def deque_append_def)
  qed
qed

text \<open>
  Claim C5. After \<open>n\<close> calls of \<^verbatim>\<open>add_data\<close>, \<^verbatim>\<open>recent_powers\<close> has
  \<open>min n 20\<close> elements: the last \<open>min n 20\<close> readings, in the order they arrived.
\<close>

theorem recent_powers_window:
  "length (recent_powers (feed did dname ps)) = min (length ps) 20
 \<and> recent_powers (feed did dname ps) = drop (length ps - min (length ps) 20) ps"
proof -
  have "length ps - min (length ps) 20 = length ps - 20" by simp
  then show ?thesis by (simp add: recent_powers_feed min_def)
qed

subsection \<open>The power bar\<close>

lemma filled_cells_bar: "filled_cells (bar_of f w) = nat f"
  by (simp add: filled_cells_def bar_of_def)

lemma length_bar: "length (bar_of f w) = nat f + nat (w - f)"
  by (simp add: bar_of_def)

text \<open>
  Where the current reading is not negative and not above the maximum, as after every
  call of \<^verbatim>\<open>add_data\<close> with a reading that is not negative, the bar has exactly the
  given width, and between none and all of its cells are filled.
\<close>

lemma power_bar_ok:
  assumes c0: "0 \<le> current_power s" and cm: "current_power s \<le> max_power s"
    and w0: "0 \<le> w" and w53: "w < 2 ^ 53"
  shows "\<exists>f. get_power_bar s w = Inr (bar_of f w) \<and> 0 \<le> f \<and> f \<le> w"
proof (cases "max_power s = 0")
  case True
  have "replicate (nat w) Blank = bar_of 0 w" by (simp add: bar_of_def)
  with True w0 show ?thesis by (auto simp: get_power_bar_def)
next
  case False
  with c0 cm have pos: "0 < max_power s" by simp
  have "0 \<le> current_power s / max_power s" "current_power s / max_power s \<le> 1"
    using c0 cm pos by simp_all
  from fl_enclosed [OF this is_double_one]
  obtain r where r: "fl (current_power s / max_power s) = Fin r" "0 \<le> r" "r \<le> 1" by blast
  have wf: "int_to_float w = Inr (of_int w)"
    using w0 w53 by (intro int_to_float_small) simp
  have wd: "is_double (of_int w)" using w0 w53 by (intro is_double_of_int) simp
  have "0 \<le> r * of_int w" using r(2) w0 by simp
  moreover have "r * of_int w \<le> 1 * of_int w" using r(3) w0 by (intro mult_right_mono) simp_all
  then have "r * of_int w \<le> of_int w" by simp
  ultimately obtain p where p: "fl (r * of_int w) = Fin p" "0 \<le> p" "p \<le> of_int w"
    using fl_enclosed [OF _ _ wd] by blast
  have f0: "0 \<le> \<lfloor>p\<rfloor>" using p(2) by simp
  have fw: "\<lfloor>p\<rfloor> \<le> w" using p(3) by (simp add: floor_le_iff)
  have "get_power_bar s w = Inr (bar_of \<lfloor>p\<rfloor> w)"
    using pos r(1) wf p(1,2) by (simp add: get_power_bar_def Let_def)
  with f0 fw show ?thesis by blast
qed

lemma power_bar_ok_length:
  assumes "0 \<le> current_power s" and "current_power s \<le> max_power s"
    and "0 \<le> w" and "w < 2 ^ 53"
  shows "\<exists>bar. get_power_bar s w = Inr bar \<and> length bar = nat w \<and> filled_cells bar \<le> nat w"
proof -
  from power_bar_ok [OF assms]
  obtain f where f: "get_power_bar s w = Inr (bar_of f w)" "0 \<le> f" "f \<le> w" by blast
  have "nat f + nat (w - f) = nat w" using f(2,3) by linarith
  moreover have "nat f \<le> nat w" using f(3) by simp
  ultimately show ?thesis using f(1) by (simp add: length_bar filled_cells_bar)
qed

text \<open>
  Claim C2. \<^verbatim>\<open>get_power_bar\<close> is to return a bar of the given width whose filled
  cells show the ratio \<^verbatim>\<open>current_power / max_power\<close> clamped to the interval from 0
  to 1, also for a negative \<^verbatim>\<open>current_power\<close>. The code misses that for a negative
  reading: the count of filled cells is negative, the filled part is the empty string, and
  the light part gets \<^verbatim>\<open>width - filled\<close> cells, more than the width. After the
  readings 10.0 and -20.0 the bar of width 30 is 90 light cells.
\<close>

theorem power_bar_negative_reading:
  "get_power_bar (feed ''fridge_207'' ''Fridge'' [10, - 20]) 30 = Inr (replicate 90 Blank)"
proof -
  have s: "max_power (feed ''fridge_207'' ''Fridge'' [10, - 20]) = 10"
      "current_power (feed ''fridge_207'' ''Fridge'' [10, - 20]) = - 20"
    by (simp_all add: feed_def add_data_def LiveStats_init_def)
  have a: "fl (- 2) = Fin (- 2)" by (rule fl_int_val [where n = "- 2"]) simp_all
  have b: "int_to_float 30 = Inr 30" using int_to_float_small [of 30] by simp
  have c: "fl (- 60) = Fin (- 60)" by (rule fl_int_val [where n = "- 60"]) simp_all
  show ?thesis by (simp add: get_power_bar_def s a b c bar_of_def)
qed

text \<open>The product \<^verbatim>\<open>normalized * width\<close> is a rounded one: after the readings 50.0
  and 29.0 it is 28.999999999999996, and the bar of width 50 has 28 filled cells.\<close>

lemma power_bar_rounds:
  "get_power_bar (feed ''fridge_207'' ''Fridge'' [50, 29]) 50
     = Inr (replicate 28 Filled @ replicate 22 Blank)"
proof -
  have s: "max_power (feed ''fridge_207'' ''Fridge'' [50, 29]) = 50"
      "current_power (feed ''fridge_207'' ''Fridge'' [50, 29]) = 29"
    by (simp_all add: feed_def add_data_def LiveStats_init_def)
  have a: "fl (29 / 50) = Fin (5224175567749775 / 2 ^ 53)"
    by (rule fl_eval [where e = "- 1" and m = 5224175567749775]) (simp_all add: rne_def)
  have b: "int_to_float 50 = Inr 50" using int_to_float_small [of 50] by simp
  have c: "fl (5224175567749775 / 2 ^ 53 * 50) = Fin (8162774324609023 / 2 ^ 48)"
    by (rule fl_eval [where e = 4 and m = 8162774324609023]) (simp_all add: rne_def)
  show ?thesis by (simp add: get_power_bar_def s a [simplified] b c [simplified] bar_of_def)
qed

text \<open>A negative reading of the largest magnitude makes the product an infinity, and
  \<^verbatim>\<open>int\<close> raises.\<close>

lemma power_bar_overflow:
  "get_power_bar (feed ''fridge_207'' ''Fridge'' [1, - (2 ^ 1023)]) 30 = Inl OverflowError"
proof -
  have s: "max_power (feed ''fridge_207'' ''Fridge'' [1, - (2 ^ 1023)]) = 1"
      "current_power (feed ''fridge_207'' ''Fridge'' [1, - (2 ^ 1023)]) = - (2 ^ 1023)"
    by (simp_all add: feed_def add_data_def LiveStats_init_def)
  have a: "fl (- (2 ^ 1023)) = Fin (- (2 ^ 1023))"
    by (rule fl_dyadic [where m = "- (2 ^ 52)" and e = 971]) simp_all
  have b: "int_to_float 30 = Inr 30" using int_to_float_small [of 30] by simp
  have c: "fl (- (2 ^ 1023) * 30) = NInf" by (rule fl_overflow_neg) simp
  have d: "fmul (fl (- (2 ^ 1023))) 30 = NInf" by (simp only: a fmul.simps c)
  show ?thesis
    unfolding get_power_bar_def Let_def
    by (simp only: s div_by_1 b d py_int.simps sum.case) simp
qed

subsection \<open>Displays\<close>

lemma displayable_ok:
  assumes "displayable s"
  shows "print_dashboard s pr = None" and "power_info s = None"
  using assms
  by (auto simp: displayable_def print_dashboard_def power_info_def split: sum.splits)

lemma nonneg_displayable:
  assumes c: "0 \<le> current_power s" "current_power s \<le> max_power s"
    and n: "0 \<le> message_count s" "message_count s \<le> 2 ^ 63"
  shows "displayable s"
proof -
  obtain cnt where cnt: "int_to_float (message_count s) = Inr cnt"
    using int_to_float_count [OF n] by blast
  then have avg: "\<not> isl (get_avg_power s)"
    by (simp add: get_avg_power_def truediv_int_def)
  obtain f50 where b50: "get_power_bar s 50 = Inr (bar_of f50 50)"
    using power_bar_ok [OF c, of 50] by auto
  obtain f30 where b30: "get_power_bar s 30 = Inr (bar_of f30 30)"
    using power_bar_ok [OF c, of 30] by auto
  from avg b50 b30 show ?thesis by (simp add: displayable_def)
qed

lemma displayable_init: "displayable (LiveStats_init did dname)"
  by (rule nonneg_displayable) (simp_all add: LiveStats_init_def)



subsection \<open>The average\<close>

text \<open>
  Claim C9. \<^verbatim>\<open>get_avg_power()\<close> is 0 when \<^verbatim>\<open>message_count\<close> is 0 and
  \<^verbatim>\<open>total_power / message_count\<close>, Python's quotient of the float by the int, when
  it is positive; replaying an empty sequence of readings runs no iteration, returns
  normally and leaves an aggregator with count 0 and average 0.
\<close>

theorem avg_power_cases:
  "(message_count s = 0 \<longrightarrow> get_avg_power s = Inr (Fin 0))
 \<and> (0 < message_count s \<longrightarrow> get_avg_power s = truediv_int (total_power s) (message_count s))
 \<and> (publish_rate \<noteq> 0 \<longrightarrow>
      (\<exists>st. simulate_device net max_sleep sub_raises dname did topic_prefix publish_rate m [] = Inr st
          \<and> message_count (stats st) = 0 \<and> get_avg_power (stats st) = Inr (Fin 0)))"
proof -
  have i0: "int_to_float 0 = Inr 0" using int_to_float_small [of 0] by simp
  have avg0: "get_avg_power (LiveStats_init did dname) = Inr (Fin 0)"
    by (simp add: get_avg_power_def LiveStats_init_def)
  have bar0: "get_power_bar (LiveStats_init did dname) 50 = Inr (replicate 50 Blank)"
    by (simp add: get_power_bar_def LiveStats_init_def)
  have "simulate_device net max_sleep sub_raises dname did topic_prefix publish_rate m [] =
      Inr \<lparr>stats = LiveStats_init did dname,
           processor = (if using_mqtt m
             then snd (subscribe_to_mqtt sub_raises (ApplicationLayer_init (topic_prefix @ ''/+/power'')) m)
             else ApplicationLayer_init (topic_prefix @ ''/+/power'')),
           mqtt_client = m\<rparr>"
    if "publish_rate \<noteq> 0"
    using that by (simp add: simulate_device_def Let_def i0 print_dashboard_def avg0 bar0)
  moreover have "message_count (LiveStats_init did dname) = 0"
    by (simp add: LiveStats_init_def)
  ultimately show ?thesis using avg0 by (simp add: get_avg_power_def)
qed

theorem avg_power_cases_witness:
  "get_avg_power (LiveStats_init ''fridge_207'' ''Fridge'') = Inr (Fin 0)
 \<and> get_avg_power
      \<lparr>device_id = ''fridge_207'', device_name = ''Fridge'', message_count = 3,
       total_power = Fin 300, max_power = 150, min_power = Fin 50, current_power = 50,
       recent_powers = [100, 150, 50]\<rparr> = Inr (Fin 100)
 \<and> \<not> isl (simulate_device broker_ok 100 False ''Fridge'' ''fridge_207'' ''home/appliance'' 10000 None [])
 \<and> get_avg_power (stats (projr
       (simulate_device broker_ok 100 False ''Fridge'' ''fridge_207'' ''home/appliance'' 10000 None [])))
     = Inr (Fin 0)"
proof -
  have d: "is_double (of_int 3)" "is_double (300 / of_int 3)"
    by (rule is_double_int_val [where n = 3], simp, simp)
       (rule is_double_int_val [where n = 100], simp, simp)
  have t: "truediv_int (Fin 300) 3 = Inr (Fin 100)"
    using truediv_int_exact [OF d] by simp
  show ?thesis
    using avg_power_cases [of "LiveStats_init ''fridge_207'' ''Fridge''" 10000 broker_ok 100 False
        "''Fridge''" "''fridge_207''" "''home/appliance''" None]
      avg_power_cases [of "\<lparr>device_id = ''fridge_207'', device_name = ''Fridge'', message_count = 3,
         total_power = Fin 300, max_power = 150, min_power = Fin 50, current_power = 50,
         recent_powers = [100, 150, 50]\<rparr>" 10000 broker_ok 100 False
        "''Fridge''" "''fridge_207''" "''home/appliance''" None]
    by (auto simp: LiveStats_init_def t)
qed

section \<open>Properties of the application layer\<close>

lemma process_try_count:
  "processed_count a = int (length (received_messages a)) \<Longrightarrow>
   processed_count (fst (process_try a topic payload verbose)) =
     int (length (received_messages (fst (process_try a topic payload verbose))))"
  by (simp add: process_try_def Let_def split: json.splits option.splits sum.splits)

lemma app_run_snoc:
  "app_run tf (calls @ [(topic, payload, verbose)]) =
     process_json_message (app_run tf calls) topic payload verbose"
  by (simp add: app_run_def)

text \<open>
  Claim C10. In every state of an application layer reached from its construction by
  calls of \<^verbatim>\<open>process_json_message\<close>, with any payloads, those that make the
  exception handler fire included, \<^verbatim>\<open>processed_count\<close> is the length of
  \<^verbatim>\<open>received_messages\<close>.
\<close>

theorem processed_count_received:
  "processed_count (app_run tf calls) = int (length (received_messages (app_run tf calls)))"
proof (induction calls rule: rev_induct)
  case Nil
  show ?case by (simp add: app_run_def ApplicationLayer_init_def)
next
  case (snoc call calls)
  obtain topic payload verbose where call: "call = (topic, payload, verbose)"
    by (cases call) auto
  show ?case
    unfolding call app_run_snoc process_json_message_def
    by (rule process_try_count) (rule snoc)
qed

text \<open>
  Payloads on which the handler fires: one that is not a dict, one whose device id is
  unhashable, one whose power is a string, one whose power is an int too large for a
  float. The last two have already created the device's entry and counted the message
  there when the exception comes.
\<close>

lemma handler_fires:
  "snd (process_try (ApplicationLayer_init ''home/appliance/+/power'') ''t'' (JStr ''x'') True)
     = Some AttributeError
 \<and> snd (process_try (ApplicationLayer_init ''home/appliance/+/power'') ''t''
          (JObj [(''device_id'', JList [])]) True) = Some TypeError
 \<and> snd (process_try (ApplicationLayer_init ''home/appliance/+/power'') ''t''
          (JObj [(''device_id'', JStr ''d''), (''power'', JStr ''high'')]) True) = Some TypeError
 \<and> dev_count (process_json_message (ApplicationLayer_init ''home/appliance/+/power'') ''t''
          (JObj [(''device_id'', JStr ''d''), (''power'', JStr ''high'')]) True) (JStr ''d'') = 1
 \<and> processed_count (process_json_message (ApplicationLayer_init ''home/appliance/+/power'') ''t''
          (JObj [(''device_id'', JStr ''d''), (''power'', JStr ''high'')]) True) = 0"
  by (simp add: process_json_message_def process_try_def dict_get_def Let_def dev_count_def
      ApplicationLayer_init_def new_dev_stats_def)

lemma handler_fires_huge_int:
  "snd (process_try (ApplicationLayer_init ''home/appliance/+/power'') ''t''
          (JObj [(''device_id'', JStr ''d''), (''power'', JInt (2 ^ 1024))]) True) = Some OverflowError
 \<and> processed_count (process_json_message (ApplicationLayer_init ''home/appliance/+/power'') ''t''
          (JObj [(''device_id'', JStr ''d''), (''power'', JInt (2 ^ 1024))]) True) = 0"
  by (simp add: process_json_message_def process_try_def dict_get_def Let_def
      ApplicationLayer_init_def new_dev_stats_def int_to_float_huge del: power_numeral)

subsection \<open>Replay without a connected client\<close>












text \<open>A replay that does not return normally: at a rate of \<open>2 ^ (- 40)\<close> messages per
  second the sleep length is beyond a limit of 100 seconds, and the first iteration ends
  in OverflowError.\<close>

lemma simulate_step_sleep_error:
  assumes "\<not> using_mqtt (mqtt_client st)" and "publish_rate \<noteq> 0"
    and "sleep_error max_sleep (fl (1 / publish_rate)) = Some e"
    and "displayable (stats st)" and "displayable (add_data (stats st) (snd row))"
  shows "simulate_step net max_sleep did topic_prefix publish_rate tot i st row = Inl e"
proof -
  note ok = displayable_ok [OF assms(4)] displayable_ok [OF assms(5)]
  obtain avg where avg: "get_avg_power (add_data (stats st) (snd row)) = Inr avg"
    using assms(5) by (cases "get_avg_power (add_data (stats st) (snd row))")
      (simp_all add: displayable_def)
  have fake: "fake_mqtt_publish t (reading did (fst row) (snd row)) (stats st) vb sj
      = Inr (add_data (stats st) (snd row))" for t vb sj
    by (simp add: fake_mqtt_publish_def reading_def dict_get_def Let_def ok)
  show ?thesis
  proof (cases "mqtt_client st")
    case None
    with assms(1,2,3) show ?thesis
      by (simp add: simulate_step_def Let_def using_mqtt_def ok fake [unfolded reading_def] avg)
  next
    case (Some c)
    with assms(1) have "\<not> connected c" by (simp add: using_mqtt_def)
    with Some assms(1,2,3) show ?thesis
      by (simp add: simulate_step_def Let_def using_mqtt_def ok fake [unfolded reading_def] avg)
  qed
qed

lemma slow_rate_overflows:
  "simulate_device broker_ok 100 False ''Fridge'' ''fridge_207'' ''home/appliance'' (1 / 2 ^ 40) None
     [(''t1'', 100)] = Inl OverflowError"
proof -
  have f: "fl (2 ^ 40) = Fin (2 ^ 40)"
    by (rule fl_dyadic [where m = 1 and e = 40]) simp_all
  have s: "sleep_error 100 (fl (1 / (1 / 2 ^ 40))) = Some OverflowError"
    using f [simplified] by (simp add: sleep_error_def)
  have d0: "displayable (LiveStats_init ''fridge_207'' ''Fridge'')" by (rule displayable_init)
  have d1: "displayable (add_data (LiveStats_init ''fridge_207'' ''Fridge'') 100)"
    by (rule nonneg_displayable) (simp_all add: add_data_def LiveStats_init_def)
  have i1: "int_to_float 1 = Inr 1" using int_to_float_small [of 1] by simp
  have "simulate_step broker_ok 100 ''fridge_207'' ''home/appliance'' (1 / 2 ^ 40) 1 0
      \<lparr>stats = LiveStats_init ''fridge_207'' ''Fridge'',
       processor = ApplicationLayer_init (''home/appliance'' @ ''/+/power''), mqtt_client = None\<rparr>
      (''t1'', 100) = Inl OverflowError"
    by (rule simulate_step_sleep_error) (simp_all add: using_mqtt_def s [simplified] d0 d1)
  then show ?thesis
    by (simp add: simulate_device_def Let_def using_mqtt_def i1)
qed

section \<open>Properties of the MQTT client\<close>

text \<open>
  Claim C7. On a client with \<^verbatim>\<open>connected = False\<close>, \<^verbatim>\<open>publish\<close> returns
  \<^verbatim>\<open>False\<close> and leaves the client as it was, whatever the topic, payload, qos and
  retain flag and whatever the library would have done: nothing is handed to the
  library. The client is all that \<^verbatim>\<open>publish\<close> reads or writes; an application
  layer hears of a publish only through a message that was sent, so its
  \<^verbatim>\<open>processed_count\<close> does not change.
\<close>

theorem publish_not_connected:
  assumes "\<not> connected c"
  shows "publish net c topic payload qos retain = (False, c)
       \<and> outbox (snd (publish net c topic payload qos retain)) = outbox c"
  using assms by (simp add: publish_def)

theorem publish_not_connected_witness:
  "publish broker_ok (MQTTClient_init ''broker.hivemq.com'' 1883)
      ''home/appliance/fridge_207/power'' (reading ''fridge_207'' ''t1'' 100) 0 False
    = (False, MQTTClient_init ''broker.hivemq.com'' 1883)"
proof -
  have h: "\<not> connected (MQTTClient_init ''broker.hivemq.com'' 1883)"
    by (simp add: MQTTClient_init_def)
  from publish_not_connected [OF h] show ?thesis by simp
qed

text \<open>For contrast, on a connected client the same call hands the message to the
  library and returns \<^verbatim>\<open>True\<close>.\<close>

lemma publish_connected:
  "publish broker_ok ((MQTTClient_init ''broker.hivemq.com'' 1883)\<lparr>connected := True\<rparr>)
      ''home/appliance/fridge_207/power'' (reading ''fridge_207'' ''t1'' 100) 0 False
    = (True, (MQTTClient_init ''broker.hivemq.com'' 1883)
         \<lparr>connected := True,
          outbox := [(''home/appliance/fridge_207/power'', reading ''fridge_207'' ''t1'' 100, 0, False)]\<rparr>)"
  by (simp add: publish_def broker_ok_def MQTTClient_init_def)

subsection \<open>Connecting\<close>

lemma deliver_no_ack:
  assumes "\<not> connected c" and "ev \<noteq> Some 0"
  shows "deliver ev c = c"
  using assms by (cases ev) (simp_all add: deliver_def on_connect_def)

text \<open>Without an acknowledgment the wait loop ends at the first test that reads a time
  five units or more after the start, with the client unchanged.\<close>

lemma wait_connected_timeout:
  assumes nc: "\<not> connected c"
    and noack: "\<forall>j\<le>K. acks env j \<noteq> Some 0"
    and late: "5 \<le> clock env (Suc K) - clock env 0"
    and kK: "k \<le> K"
  shows "wait_connected env k c = Some c"
  using kK
proof (induction "K - k" arbitrary: k)
  case 0
  then have k: "k = K" by simp
  have d: "deliver (acks env K) c = c" using nc noack by (intro deliver_no_ack) simp_all
  show ?case
    unfolding k by (subst wait_connected.simps) (use d late nc in simp)
next
  case (Suc n)
  then have n: "n = K - Suc k" and le: "Suc k \<le> K" by simp_all
  have d: "deliver (acks env k) c = c" using nc noack Suc.prems by (intro deliver_no_ack) simp_all
  have IH: "wait_connected env (Suc k) c = Some c" using Suc.hyps(1) [OF n le] .
  show ?case
    by (subst wait_connected.simps) (use d IH nc in simp)
qed

text \<open>
  Claim C8. If the client is not connected, no acknowledgment (\<^verbatim>\<open>_on_connect\<close>
  with result code 0) arrives before the wait loop reads a time at least 5 units after the
  start, then \<^verbatim>\<open>connect()\<close> returns \<^verbatim>\<open>False\<close>, normally, and the client is
  unchanged, so \<^verbatim>\<open>connected\<close> is still \<^verbatim>\<open>False\<close>. This holds too when a
  paho call raises: the exception is caught.
\<close>

theorem connect_timeout:
  assumes "\<not> connected c"
    and "\<forall>j\<le>K. acks env j \<noteq> Some 0"
    and "5 \<le> clock env (Suc K) - clock env 0"
  shows "connect env c = Some (False, c)"
proof (cases "lib_raises env")
  case True
  then show ?thesis by (simp add: connect_def)
next
  case False
  have "wait_connected env 0 c = Some c"
    using assms by (intro wait_connected_timeout [where K = K]) simp_all
  with False assms(1) show ?thesis by (simp add: connect_def)
qed

theorem connect_timeout_witness:
  "connect silent_env (MQTTClient_init ''broker.hivemq.com'' 1883)
     = Some (False, MQTTClient_init ''broker.hivemq.com'' 1883)
 \<and> \<not> connected (MQTTClient_init ''broker.hivemq.com'' 1883)"
proof -
  have h1: "\<not> connected (MQTTClient_init ''broker.hivemq.com'' 1883)"
    by (simp add: MQTTClient_init_def)
  have h2: "\<forall>j\<le>4. acks silent_env j \<noteq> Some 0" by (simp add: silent_env_def)
  have h3: "5 \<le> clock silent_env (Suc 4) - clock silent_env 0" by (simp add: silent_env_def)
  from h1 connect_timeout [OF h1 h2 h3] show ?thesis by simp
qed

section \<open>Properties of the wire encoding\<close>

subsection \<open>Strings\<close>

lemma of_char_less: "(of_char c :: nat) < 256"
  by (metis of_char_mod_256 mod_less_divisor zero_less_numeral)

lemma unhex_hex: "n < 16 \<Longrightarrow> unhex (hex_digit n) = Some n"
  by (auto simp: unhex_def hex_digit_def Let_def)

lemma unescape_escape_char:
  assumes "unescape rest' = Some (s, rest)"
  shows "unescape (escape_char c @ rest') = Some (c # s, rest)"
proof -
  consider "c = dq \<or> c = bs" | "c \<noteq> dq" "c \<noteq> bs" "plain c" | "c \<noteq> dq" "c \<noteq> bs" "\<not> plain c"
    by blast
  then show ?thesis
  proof cases
    case 1
    then show ?thesis using assms by (auto simp: escape_char_def dq_def bs_def)
  next
    case 2
    then show ?thesis using assms by (simp add: escape_char_def)
  next
    case 3
    have "(of_char c :: nat) < 16 * 16" using of_char_less [of c] by simp
    then have lt1: "(of_char c :: nat) div 16 < 16" by (rule less_mult_imp_div_less)
    have lt2: "(of_char c :: nat) mod 16 < 16" by simp
    note lt = lt1 lt2
    have u: "CHR ''u'' \<noteq> dq" "CHR ''u'' \<noteq> bs" "bs \<noteq> dq" by (simp_all add: dq_def bs_def)
    show ?thesis
      using 3 assms u by (simp add: escape_char_def unhex_hex [OF lt(1)] unhex_hex [OF lt(2)])
  qed
qed

lemma unescape_encoded:
  "unescape (concat (map escape_char s) @ dq # rest) = Some (s, rest)"
proof (induction s)
  case Nil
  show ?case by simp
next
  case (Cons c s)
  show ?case using unescape_escape_char [OF Cons.IH, of c] by simp
qed

lemma strip_prefix_append: "strip_prefix p (p @ s) = Some s"
  by (induction p) simp_all

lemma encode_string_example:
  "encode_string [CHR ''a'', dq, CHR 0x0A] =
     [dq, CHR ''a'', bs, dq, bs, CHR ''u'', CHR ''0'', CHR ''0'', CHR ''0'', CHR ''a'', dq]"
  by (simp add: encode_string_def escape_char_def plain_def dq_def bs_def hex_digit_def
      char_of_eq_iff)

subsection \<open>Numbers\<close>

lemma length_digits: "length (digits k n) = k"
  by (induction k arbitrary: n) simp_all

lemma is_digit_digit_char: "d < 10 \<Longrightarrow> is_digit (digit_char d)"
  by (simp add: is_digit_def digit_char_def)

lemma digit_val_digit_char: "d < 10 \<Longrightarrow> digit_val (digit_char d) = d"
  by (simp add: digit_val_def digit_char_def)

lemma digits_all: "list_all is_digit (digits k n)"
  by (induction k arbitrary: n) (simp_all add: is_digit_digit_char)

lemma digits_val_snoc: "digits_val (s @ [c]) = 10 * digits_val s + digit_val c"
  by (simp add: digits_val_def)

lemma digits_val_digits: "digits_val (digits k n) = n mod 10 ^ k"
proof (induction k arbitrary: n)
  case 0
  show ?case by (simp add: digits_val_def)
next
  case (Suc k)
  have "digits_val (digits (Suc k) n) = 10 * ((n div 10) mod 10 ^ k) + n mod 10"
    by (simp add: digits_val_snoc Suc.IH digit_val_digit_char)
  also have "\<dots> = n mod 10 ^ Suc k"
    by (simp add: mod_mult2_eq)
  finally show ?case .
qed

lemma ndigits_bound: "n < 10 ^ ndigits n"
proof (induction n rule: ndigits.induct)
  case (1 n)
  show ?case
  proof (cases "n < 10")
    case True
    then show ?thesis by (subst ndigits.simps) simp
  next
    case False
    with 1 have "n div 10 < 10 ^ ndigits (n div 10)" by simp
    then have "n < 10 * 10 ^ ndigits (n div 10)" by simp
    with False show ?thesis by (subst ndigits.simps) simp
  qed
qed

lemma ndigits_pos: "0 < ndigits n"
  by (subst ndigits.simps) simp

lemma decimal_val: "digits_val (decimal n) = n"
  using ndigits_bound [of n] by (simp add: decimal_def digits_val_digits)

lemma decimal_all: "list_all is_digit (decimal n)"
  by (simp add: decimal_def digits_all)

lemma decimal_nonempty: "decimal n \<noteq> []"
  using ndigits_pos [of n] length_digits [of "ndigits n" n] by (auto simp: decimal_def)

lemma not_digit_point: "\<not> is_digit CHR ''.''" "\<not> is_digit CHR ''-''"
  by (simp_all add: is_digit_def)

lemma split_digits:
  assumes "list_all is_digit ip"
  shows "takeWhile is_digit (ip @ CHR ''.'' # fp) = ip"
    and "dropWhile is_digit (ip @ CHR ''.'' # fp) = CHR ''.'' # fp"
proof -
  have a: "\<And>x. x \<in> set ip \<Longrightarrow> is_digit x" using assms by (simp add: list_all_iff)
  show "takeWhile is_digit (ip @ CHR ''.'' # fp) = ip"
    using takeWhile_append2 [of ip is_digit "CHR ''.'' # fp"] a by (simp add: not_digit_point)
  show "dropWhile is_digit (ip @ CHR ''.'' # fp) = CHR ''.'' # fp"
    using dropWhile_append2 [of ip is_digit "CHR ''.'' # fp"] a by (simp add: not_digit_point)
qed

lemma decode_number_text:
  assumes ip: "list_all is_digit ip" "ip \<noteq> []" and fp: "list_all is_digit fp" "fp \<noteq> []"
    and v: "real (digits_val ip) + real (digits_val fp) / 10 ^ length fp = \<bar>p\<bar>"
    and p: "is_double p"
  shows "decode_number ((if p < 0 then ''-'' else []) @ ip @ ''.'' @ fp) = Some p"
proof (cases "p < 0")
  case True
  then have "- \<bar>p\<bar> = p" by simp
  with True p show ?thesis
    using ip fp v by (simp add: decode_number_def Let_def split_digits is_double_def)
next
  case False
  then have "\<bar>p\<bar> = p" by simp
  moreover from ip have "is_digit (hd ip)" by (cases ip) simp_all
  then have "hd ip \<noteq> CHR ''-''" using not_digit_point(2) by auto
  then have "hd (ip @ CHR ''.'' # fp) \<noteq> CHR ''-''" using ip(2) by simp
  ultimately show ?thesis
    using False p ip fp v by (simp add: decode_number_def Let_def split_digits is_double_def)
qed

lemma double_significand:
  assumes "is_double p" and "p \<noteq> 0"
  shows "\<bar>p\<bar> = real (nat \<bar>rne (p / 2 powi quantum p)\<bar>) * 2 powi quantum p"
proof -
  have "p = of_int (rne (p / 2 powi quantum p)) * 2 powi quantum p"
    using assms by (simp add: is_double_iff round_double_def)
  then have "\<bar>p\<bar> = \<bar>real_of_int (rne (p / 2 powi quantum p))\<bar> * 2 powi quantum p"
    by (metis abs_mult abs_of_pos zero_less_numeral zero_less_power_int)
  then show ?thesis by simp
qed

lemma scaled_value:
  fixes q :: int and M :: nat
  shows "real (M * 2 ^ nat q * 5 ^ nat (- q)) / 10 ^ nat (- q) = real M * 2 powi q"
proof (cases "0 \<le> q")
  case True
  then show ?thesis by (simp add: power_int_def)
next
  case False
  then have q: "q = - int (nat (- q))" by simp
  have "(10::real) ^ nat (- q) = 2 ^ nat (- q) * 5 ^ nat (- q)"
    by (simp flip: power_mult_distrib)
  moreover have "(2::real) powi q = inverse (2 ^ nat (- q))"
    by (subst q) (simp only: power_int_minus power_int_of_nat)
  ultimately show ?thesis using False by (simp add: field_simps)
qed

lemma div_mod_value:
  fixes N k :: nat
  shows "real (N div 10 ^ k) + real (N mod 10 ^ k) / 10 ^ k = real N / 10 ^ k"
proof -
  have "N div 10 ^ k * 10 ^ k + N mod 10 ^ k = N" by (rule div_mult_mod_eq)
  then have "real (N div 10 ^ k * 10 ^ k + N mod 10 ^ k) = real N" by (rule arg_cong)
  then have "real (N div 10 ^ k) * 10 ^ k + real (N mod 10 ^ k) = real N"
    by (simp only: of_nat_add of_nat_mult of_nat_power of_nat_numeral)
  then have "real N / 10 ^ k = (real (N div 10 ^ k) * 10 ^ k + real (N mod 10 ^ k)) / 10 ^ k"
    by simp
  also have "\<dots> = real (N div 10 ^ k) + real (N mod 10 ^ k) / 10 ^ k"
    by (simp add: add_divide_distrib)
  finally show ?thesis by simp
qed

lemma decode_number_encode:
  assumes "is_double p"
  shows "decode_number (encode_number p) = Some p"
proof (cases "p = 0")
  case True
  then show ?thesis
    by (simp add: encode_number_def decode_number_def Let_def is_digit_def digits_val_def
        digit_val_def fl_zero)
next
  case False
  define k where "k = nat (- quantum p)"
  define N where "N = nat \<bar>rne (p / 2 powi quantum p)\<bar> * 2 ^ nat (quantum p) * 5 ^ k"
  define fp where "fp = (if k = 0 then ''0'' else digits k (N mod 10 ^ k))"
  have enc: "encode_number p = (if p < 0 then ''-'' else []) @ decimal (N div 10 ^ k) @ ''.'' @ fp"
    using False by (simp add: encode_number_def Let_def k_def N_def fp_def)
  have fpd: "list_all is_digit fp" "fp \<noteq> []"
    using length_digits [of k "N mod 10 ^ k"]
    by (auto simp: fp_def digits_all is_digit_def)
  have fpv: "real (digits_val fp) / 10 ^ length fp = real (N mod 10 ^ k) / 10 ^ k"
  proof (cases "k = 0")
    case True
    then show ?thesis by (simp add: fp_def digits_val_def digit_val_def)
  next
    case False
    then show ?thesis by (simp add: fp_def digits_val_digits length_digits)
  qed
  have "real (digits_val (decimal (N div 10 ^ k))) + real (digits_val fp) / 10 ^ length fp
      = real N / 10 ^ k"
    by (simp only: fpv decimal_val div_mod_value)
  also have "\<dots> = real (nat \<bar>rne (p / 2 powi quantum p)\<bar>) * 2 powi quantum p"
    unfolding N_def k_def by (rule scaled_value)
  also have "\<dots> = \<bar>p\<bar>" using double_significand [OF assms False] by simp
  finally have v: "real (digits_val (decimal (N div 10 ^ k))) + real (digits_val fp) / 10 ^ length fp
      = \<bar>p\<bar>" .
  show ?thesis
    unfolding enc
    by (rule decode_number_text [OF decimal_all decimal_nonempty fpd v assms])
qed

subsection \<open>Readings\<close>

text \<open>
  Claim C6. For every valid reading, a device id and a timestamp that are strings and a
  power that is a double, decoding the encoded text gives the reading back: the same
  device id, timestamp and power.
\<close>

theorem encode_decode_roundtrip:
  assumes "is_double (rd_power r)"
  shows "decode (encode r) = Some r"
proof -
  have last: "\<And>s. s @ ''}'' \<noteq> [] \<and> last (s @ ''}'') = CHR ''}'' \<and> butlast (s @ ''}'') = s"
    by simp
  have e: "encode r =
      (''{'' @ encode_string ''device_id'' @ '': '' @ [dq])
      @ concat (map escape_char (rd_device_id r)) @ dq #
      (('', '' @ encode_string ''timestamp'' @ '': '' @ [dq])
       @ concat (map escape_char (rd_timestamp r)) @ dq #
       (('', '' @ encode_string ''power'' @ '': '') @ (encode_number (rd_power r) @ ''}'')))"
    by (simp add: encode_def encode_string_def)
  show ?thesis
    unfolding decode_def e
    by (simp only: strip_prefix_append unescape_encoded option.case prod.case last
        decode_number_encode [OF assms] if_True simp_thms) simp
qed

theorem encode_decode_roundtrip_witness:
  "decode (encode \<lparr>rd_device_id = ''fridge_207'', rd_timestamp = ''2013-01-01T00:00:00'',
                   rd_power = 100\<rparr>)
     = Some \<lparr>rd_device_id = ''fridge_207'', rd_timestamp = ''2013-01-01T00:00:00'',
             rd_power = 100\<rparr>"
proof -
  have "is_double 100" by (rule is_double_int_val [where n = 100]) simp_all
  then show ?thesis
    using encode_decode_roundtrip [of "\<lparr>rd_device_id = ''fridge_207'',
      rd_timestamp = ''2013-01-01T00:00:00'', rd_power = 100\<rparr>"] by simp
qed

end
